theory Spec2Isabelle
  imports Complex_Main "HOL-Library.Sublist"
begin

section \<open>Strings\<close>

text \<open>
  A JavaScript string is a sequence of UTF-16 code units. The regular expressions of the
  widget carry no \<open>u\<close> flag, so they work on code units; the bullet \<open>U+2022\<close> and the
  line separators \<open>U+2028\<close>, \<open>U+2029\<close> do not fit a byte, hence code units are natural
  numbers here. \<open>cu\<close> embeds an ASCII literal.
\<close>

type_synonym jstring = "nat list"

definition cu :: "string \<Rightarrow> jstring" where
  "cu s = map of_char s"

text \<open>LineTerminator of ECMAScript: what \<open>.\<close> does not match and what \<open>^\<close>, \<open>$\<close> look at
  under the \<open>m\<close> flag.\<close>

definition isLT :: "nat \<Rightarrow> bool" where
  "isLT c = (c = 10 \<or> c = 13 \<or> c = 8232 \<or> c = 8233)"

definition isDigit :: "nat \<Rightarrow> bool" where
  "isDigit c = (48 \<le> c \<and> c \<le> 57)"

section \<open>Global regular-expression replacement\<close>

text \<open>
  A matcher is one regular expression tried at one position: it sees the code unit before
  the position (for \<open>^\<close> and look-behind) and the input from the position on, and returns
  the matched text and capture group 1.

  \<open>replace_all\<close> is \<open>String.prototype.replace\<close> with a \<open>g\<close> regular expression: the
  input is scanned from the left, at a match the replacement is emitted and the scan goes
  on behind the match, otherwise the code unit is copied. An empty match emits its
  replacement and steps over one code unit.
\<close>

type_synonym matcher = "nat option \<Rightarrow> jstring \<Rightarrow> (jstring \<times> jstring) option"

fun replace_all ::
  "matcher \<Rightarrow> (jstring \<Rightarrow> jstring \<Rightarrow> jstring) \<Rightarrow> nat option \<Rightarrow> jstring \<Rightarrow> jstring" where
  "replace_all m f prev [] = (case m prev [] of Some (mt, g) \<Rightarrow> f mt g | None \<Rightarrow> [])"
| "replace_all m f prev (c # cs) =
     (case m prev (c # cs) of
        None \<Rightarrow> c # replace_all m f (Some c) cs
      | Some (mt, g) \<Rightarrow>
          if mt = [] then f mt g @ c # replace_all m f (Some c) cs
          else f mt g @ replace_all m f (Some (last mt)) (drop (length mt) (c # cs)))"

text \<open>\<open>^\<close> under the \<open>m\<close> flag: at the start of the input or behind a LineTerminator.\<close>

definition bol :: "nat option \<Rightarrow> bool" where
  "bol prev = (case prev of None \<Rightarrow> True | Some p \<Rightarrow> isLT p)"

text \<open>A literal pattern, as in \<open>/&/g\<close> or \<open>/\n\n/g\<close>.\<close>

definition re_lit :: "jstring \<Rightarrow> matcher" where
  "re_lit pat prev s = (if prefix pat s then Some (pat, []) else None)"

text \<open>
  \<open>/^P(.+)$/gm\<close> for a prefix pattern \<open>P\<close> given by \<open>pre\<close>, which returns the length of
  the prefix it matches. The greedy \<open>.+\<close> takes the rest of the line; no shorter choice
  satisfies \<open>$\<close>, which wants the end of the input or a LineTerminator next.
\<close>

definition re_line :: "(jstring \<Rightarrow> nat option) \<Rightarrow> matcher" where
  "re_line pre prev s =
     (if bol prev then
        (case pre s of
           None \<Rightarrow> None
         | Some n \<Rightarrow>
             (let body = takeWhile (\<lambda>c. \<not> isLT c) (drop n s)
              in if body = [] then None else Some (take n s @ body, body)))
      else None)"

text \<open>The prefixes \<open>### \<close> and \<open>## \<close> (a literal), \<open>[-\<bullet>] \<close> and \<open>\d+\. \<close>.\<close>

definition pre_lit :: "jstring \<Rightarrow> jstring \<Rightarrow> nat option" where
  "pre_lit pat s = (if prefix pat s then Some (length pat) else None)"

definition pre_bullet :: "jstring \<Rightarrow> nat option" where
  "pre_bullet s =
     (case s of
        c # d # _ \<Rightarrow> if (c = 45 \<or> c = 8226) \<and> d = 32 then Some 2 else None
      | _ \<Rightarrow> None)"

definition pre_numbered :: "jstring \<Rightarrow> nat option" where
  "pre_numbered s =
     (let ds = takeWhile isDigit s
      in if ds \<noteq> [] \<and> prefix (cu ''. '') (drop (length ds) s)
         then Some (length ds + 2) else None)"

text \<open>\<open>/^---+$/gm\<close>: the whole line is three or more hyphens.\<close>

definition re_hr :: matcher where
  "re_hr prev s =
     (let ds = takeWhile (\<lambda>c. c = 45) s; rest = drop (length ds) s
      in if bol prev \<and> 3 \<le> length ds \<and> (case rest of [] \<Rightarrow> True | c # _ \<Rightarrow> isLT c)
         then Some (ds, []) else None)"

text \<open>
  The lazy \<open>.+?\<close> followed by the literal \<open>d\<close>: the number of code units \<open>.+?\<close> takes,
  the least \<open>k \<ge> 1\<close> such that \<open>d\<close> follows, all of them on one line.
\<close>

fun lazy_dots_then :: "jstring \<Rightarrow> jstring \<Rightarrow> nat option" where
  "lazy_dots_then d [] = None"
| "lazy_dots_then d (c # cs) =
     (if isLT c then None
      else if prefix d cs then Some 1
      else map_option Suc (lazy_dots_then d cs))"

text \<open>\<open>/\*\*(.+?)\*\*/g\<close>\<close>

definition re_bold :: matcher where
  "re_bold prev s =
     (if prefix (cu ''**'') s then
        (case lazy_dots_then (cu ''**'') (drop 2 s) of
           None \<Rightarrow> None
         | Some k \<Rightarrow> Some (take (k + 4) s, take k (drop 2 s)))
      else None)"

text \<open>
  The lazy \<open>.+?\<close> of the italic rule, followed by \<open>(?<!\*)\*(?!\*)\<close>: the group ends
  behind a code unit that is no asterisk, before an asterisk that no asterisk follows.
\<close>

fun italic_body :: "jstring \<Rightarrow> nat option" where
  "italic_body [] = None"
| "italic_body (c # cs) =
     (if isLT c then None
      else if c \<noteq> 42 \<and>
              (case cs of
                 [] \<Rightarrow> False
               | d # ds \<Rightarrow> d = 42 \<and> (case ds of [] \<Rightarrow> True | e # _ \<Rightarrow> e \<noteq> 42))
      then Some 1
      else map_option Suc (italic_body cs))"

text \<open>\<open>/(?<!\*)\*(?!\*)(.+?)(?<!\*)\*(?!\*)/g\<close>\<close>

definition re_italic :: matcher where
  "re_italic prev s =
     (case s of
        [] \<Rightarrow> None
      | c # rest \<Rightarrow>
          if c = 42 \<and> prev \<noteq> Some 42 \<and> (case rest of [] \<Rightarrow> True | d # _ \<Rightarrow> d \<noteq> 42) then
            (case italic_body rest of
               None \<Rightarrow> None
             | Some k \<Rightarrow> Some (take (k + 2) s, take k rest))
          else None)"

text \<open>
  The greedy \<open>.*\<close> followed by the literal \<open>d\<close>: the number of code units \<open>.*\<close> takes,
  the longest choice on the line first.
\<close>

fun greedy_dots_then :: "jstring \<Rightarrow> jstring \<Rightarrow> nat option" where
  "greedy_dots_then d [] = (if d = [] then Some 0 else None)"
| "greedy_dots_then d (c # cs) =
     (case (if isLT c then None else greedy_dots_then d cs) of
        Some k \<Rightarrow> Some (Suc k)
      | None \<Rightarrow> if prefix d (c # cs) then Some 0 else None)"

text \<open>One round of the group \<open>(<li>.*<\/li>\n?)\<close>: the length it matches.\<close>

definition li_item :: "jstring \<Rightarrow> nat option" where
  "li_item s =
     (if prefix (cu ''<li>'') s then
        (case greedy_dots_then (cu ''</li>'') (drop 4 s) of
           None \<Rightarrow> None
         | Some k \<Rightarrow> Some (if prefix [10] (drop (k + 9) s) then k + 10 else k + 9))
      else None)"

text \<open>The greedy \<open>+\<close> over the group: rounds are taken as long as one matches.\<close>

function li_run :: "jstring \<Rightarrow> nat" where
  "li_run s = (case li_item s of None \<Rightarrow> 0 | Some n \<Rightarrow> n + li_run (drop n s))"
  by pat_completeness auto
termination
proof (relation "measure length")
  show "wf (measure length)" by simp
next
  fix s n
  assume "li_item s = Some n"
  then show "(drop n s, s) \<in> measure length"
    by (cases s) (auto simp: li_item_def cu_def split: if_splits option.splits)
qed

declare li_run.simps [simp del]

text \<open>\<open>/(<li>.*<\/li>\n?)+/g\<close>\<close>

definition re_ul :: matcher where
  "re_ul prev s = (if li_run s = 0 then None else Some (take (li_run s) s, []))"

section \<open>The Markdown renderer\<close>

text \<open>
  The replacements, as functions of the matched text and of group 1: a template
  \<open>l$1r\<close>, a constant, and the function that wraps a run of list items.
\<close>

definition tag_wrap :: "string \<Rightarrow> string \<Rightarrow> jstring \<Rightarrow> jstring \<Rightarrow> jstring" where
  "tag_wrap l r mt g = cu l @ g @ cu r"

definition const_rep :: "string \<Rightarrow> jstring \<Rightarrow> jstring \<Rightarrow> jstring" where
  "const_rep r mt g = cu r"

definition ul_rep :: "jstring \<Rightarrow> jstring \<Rightarrow> jstring" where
  "ul_rep mt g = cu ''<ul class=\"nuru-list\">'' @ mt @ cu ''</ul>''"

text \<open>
  The statements of \<open>parseMarkdown\<close>, one definition for each: the three replacements
  that escape \<open>&\<close>, \<open><\<close>, \<open>>\<close>, then headers, bold, italic, bullets, the list
  wrapper, numbered lines, the divider, paragraph breaks and line breaks.
\<close>

definition escape_html :: "jstring \<Rightarrow> jstring" where
  "escape_html s =
     replace_all (re_lit (cu ''>'')) (const_rep ''&gt;'') None
       (replace_all (re_lit (cu ''<'')) (const_rep ''&lt;'') None
         (replace_all (re_lit (cu ''&'')) (const_rep ''&amp;'') None s))"

definition h4_pass :: "jstring \<Rightarrow> jstring" where
  "h4_pass = replace_all (re_line (pre_lit (cu ''### '')))
               (tag_wrap ''<h4 class=\"nuru-h4\">'' ''</h4>'') None"

definition h3_pass :: "jstring \<Rightarrow> jstring" where
  "h3_pass = replace_all (re_line (pre_lit (cu ''## '')))
               (tag_wrap ''<h3 class=\"nuru-h3\">'' ''</h3>'') None"

definition bold_pass :: "jstring \<Rightarrow> jstring" where
  "bold_pass = replace_all re_bold (tag_wrap ''<strong>'' ''</strong>'') None"

definition italic_pass :: "jstring \<Rightarrow> jstring" where
  "italic_pass = replace_all re_italic (tag_wrap ''<em>'' ''</em>'') None"

definition bullet_pass :: "jstring \<Rightarrow> jstring" where
  "bullet_pass = replace_all (re_line pre_bullet) (tag_wrap ''<li>'' ''</li>'') None"

definition ul_pass :: "jstring \<Rightarrow> jstring" where
  "ul_pass = replace_all re_ul ul_rep None"

definition numbered_pass :: "jstring \<Rightarrow> jstring" where
  "numbered_pass = replace_all (re_line pre_numbered) (tag_wrap ''<li>'' ''</li>'') None"

definition hr_pass :: "jstring \<Rightarrow> jstring" where
  "hr_pass = replace_all re_hr (const_rep ''<hr class=\"nuru-divider\">'') None"

definition para_pass :: "jstring \<Rightarrow> jstring" where
  "para_pass = replace_all (re_lit [10, 10]) (const_rep ''</p><p class=\"nuru-p\">'') None"

definition br_pass :: "jstring \<Rightarrow> jstring" where
  "br_pass = replace_all (re_lit [10]) (const_rep ''<br>'') None"

text \<open>The rules behind the escaping, in the order of the source.\<close>

definition markup_passes :: "jstring \<Rightarrow> jstring" where
  "markup_passes html =
     br_pass (para_pass (hr_pass (numbered_pass (ul_pass (bullet_pass
       (italic_pass (bold_pass (h3_pass (h4_pass html)))))))))"

text \<open>The value of \<open>html\<close> when \<open>parseMarkdown\<close> reaches its final test.\<close>

definition render_body :: "jstring \<Rightarrow> jstring" where
  "render_body text = markup_passes (escape_html text)"

definition starts_block :: "jstring \<Rightarrow> bool" where
  "starts_block html =
     (prefix (cu ''<h'') html \<or> prefix (cu ''<ul'') html \<or> prefix (cu ''<ol'') html)"

definition parseMarkdown :: "jstring \<Rightarrow> jstring" where
  "parseMarkdown text =
     (if text = [] then []
      else let html = render_body text
           in if \<not> starts_block html then cu ''<p class=\"nuru-p\">'' @ html @ cu ''</p>''
              else html)"

section \<open>JavaScript values\<close>

text \<open>
  What \<open>response.json()\<close> delivers and what property reads return. Numbers are
  rationals; an object is the list of its own properties, looked up from the left.
\<close>

datatype jsval =
    JUndefined
  | JNull
  | JBool bool
  | JNum rat
  | JStr jstring
  | JArr "jsval list"
  | JObj "(jstring \<times> jsval) list"

datatype error = TypeError

fun truthy :: "jsval \<Rightarrow> bool" where
  "truthy JUndefined = False"
| "truthy JNull = False"
| "truthy (JBool b) = b"
| "truthy (JNum q) = (q \<noteq> 0)"
| "truthy (JStr s) = (s \<noteq> [])"
| "truthy (JArr xs) = True"
| "truthy (JObj kvs) = True"

fun nullish :: "jsval \<Rightarrow> bool" where
  "nullish JUndefined = True"
| "nullish JNull = True"
| "nullish v = False"

text \<open>
  \<open>v.k\<close> for the property names the widget reads, none of which is an index, \<open>length\<close>
  or a member of a built-in prototype: only an object can have it. On \<open>null\<close> and
  \<open>undefined\<close> the read raises; every caller tests for them first.
\<close>

fun get_prop :: "jsval \<Rightarrow> jstring \<Rightarrow> jsval" where
  "get_prop (JObj kvs) k = (case map_of kvs k of None \<Rightarrow> JUndefined | Some v \<Rightarrow> v)"
| "get_prop v k = JUndefined"

text \<open>\<open>v[0]\<close> on a value that is not \<open>null\<close> or \<open>undefined\<close>.\<close>

fun elem0 :: "jsval \<Rightarrow> jsval" where
  "elem0 (JArr xs) = (case xs of [] \<Rightarrow> JUndefined | x # _ \<Rightarrow> x)"
| "elem0 (JStr s) = (case s of [] \<Rightarrow> JUndefined | c # _ \<Rightarrow> JStr [c])"
| "elem0 (JObj kvs) = (case map_of kvs (cu ''0'') of None \<Rightarrow> JUndefined | Some v \<Rightarrow> v)"
| "elem0 v = JUndefined"

text \<open>
  The functions of the JavaScript runtime that format and read numbers, the product of two
  numbers as IEEE doubles, rounded as the runtime rounds it, and the decoding of
  \<open>application/x-www-form-urlencoded\<close> text by \<open>URLSearchParams\<close>, are parameters.
\<close>

record platform =
  number_to_string :: "rat \<Rightarrow> jstring"
  multiply :: "rat \<Rightarrow> rat \<Rightarrow> rat"
  to_fixed1 :: "rat \<Rightarrow> jstring"
  currency_en_US :: "rat \<Rightarrow> jstring"
  string_to_number :: "jstring \<Rightarrow> rat option"
  form_decode :: "jstring \<Rightarrow> jstring"

text \<open>Concatenation of pieces evaluated from the left; the first one that raises wins.\<close>

fun concatE :: "(error + jstring) list \<Rightarrow> error + jstring" where
  "concatE [] = Inr []"
| "concatE (Inl e # ps) = Inl e"
| "concatE (Inr s # ps) = (case concatE ps of Inl e \<Rightarrow> Inl e | Inr t \<Rightarrow> Inr (s @ t))"

fun joinE :: "(error + jstring) list \<Rightarrow> error + jstring" where
  "joinE [] = Inr []"
| "joinE [p] = p"
| "joinE (p # ps) = concatE [p, Inr [44], joinE ps]"

text \<open>
  ToString, as a template literal applies it. An array joins its elements with commas,
  \<open>null\<close> and \<open>undefined\<close> elements giving the empty string. An object gives
  \<open>[object Object]\<close> unless it has an own property \<open>toString\<close>, which coming from JSON
  is not callable, so that the conversion raises.
\<close>

fun to_string :: "platform \<Rightarrow> jsval \<Rightarrow> error + jstring" where
  "to_string P JUndefined = Inr (cu ''undefined'')"
| "to_string P JNull = Inr (cu ''null'')"
| "to_string P (JBool b) = Inr (if b then cu ''true'' else cu ''false'')"
| "to_string P (JNum q) = Inr (number_to_string P q)"
| "to_string P (JStr s) = Inr s"
| "to_string P (JArr xs) =
     joinE (map (\<lambda>x. if nullish x then Inr [] else to_string P x) xs)"
| "to_string P (JObj kvs) =
     (if map_of kvs (cu ''toString'') \<noteq> None then Inl TypeError
      else Inr (cu ''[object Object]''))"

text \<open>\<open>v.toLocaleString('en-US', {style: 'currency', currency: 'USD', ...})\<close>\<close>

fun to_locale_string :: "platform \<Rightarrow> jsval \<Rightarrow> error + jstring" where
  "to_locale_string P JUndefined = Inl TypeError"
| "to_locale_string P JNull = Inl TypeError"
| "to_locale_string P (JBool b) = Inr (if b then cu ''true'' else cu ''false'')"
| "to_locale_string P (JNum q) = Inr (currency_en_US P q)"
| "to_locale_string P (JStr s) = Inr s"
| "to_locale_string P (JArr xs) =
     joinE (map (\<lambda>x. if nullish x then Inr [] else to_locale_string P x) xs)"
| "to_locale_string P (JObj kvs) =
     (if map_of kvs (cu ''toLocaleString'') \<noteq> None \<or> map_of kvs (cu ''toString'') \<noteq> None
      then Inl TypeError
      else Inr (cu ''[object Object]''))"

text \<open>\<open>v.toFixed(1)\<close>: only a number has the method.\<close>

fun to_fixed :: "platform \<Rightarrow> jsval \<Rightarrow> error + jstring" where
  "to_fixed P (JNum q) = Inr (to_fixed1 P q)"
| "to_fixed P v = Inl TypeError"

text \<open>ToNumber; \<open>None\<close> is NaN.\<close>

fun to_number :: "platform \<Rightarrow> jsval \<Rightarrow> error + rat option" where
  "to_number P JUndefined = Inr None"
| "to_number P JNull = Inr (Some 0)"
| "to_number P (JBool b) = Inr (Some (if b then 1 else 0))"
| "to_number P (JNum q) = Inr (Some q)"
| "to_number P (JStr s) = Inr (string_to_number P s)"
| "to_number P v =
     (case to_string P v of Inl e \<Rightarrow> Inl e | Inr s \<Rightarrow> Inr (string_to_number P s))"

text \<open>\<open>v >= n\<close> for a number \<open>n\<close>: false when \<open>v\<close> converts to NaN.\<close>

definition ge_num :: "platform \<Rightarrow> jsval \<Rightarrow> rat \<Rightarrow> error + bool" where
  "ge_num P v n =
     (case to_number P v of
        Inl e \<Rightarrow> Inl e
      | Inr None \<Rightarrow> Inr False
      | Inr (Some q) \<Rightarrow> Inr (n \<le> q))"

section \<open>Greeting\<close>

definition generic_greeting :: jstring where
  "generic_greeting = cu ''Hi! I'm Nuru. What brings you here today?''"

text \<open>\<open>top_waste_zones && top_waste_zones[0] ? top_waste_zones[0].name : 'operations'\<close>\<close>

definition topZone :: "jsval \<Rightarrow> jsval" where
  "topZone top_waste_zones =
     (if truthy top_waste_zones \<and> truthy (elem0 top_waste_zones)
      then get_prop (elem0 top_waste_zones) (cu ''name'')
      else JStr (cu ''operations''))"

text \<open>
  \<open>Math.floor(Math.random() * 50) + 50\<close>, for the value \<open>rnd\<close> of \<open>Math.random()\<close>. The
  product is the one of the runtime, on doubles; its floor is a whole number, to which 50
  is added without rounding.
\<close>

definition patternCount :: "platform \<Rightarrow> rat \<Rightarrow> rat" where
  "patternCount P rnd = of_int \<lfloor>multiply P rnd 50\<rfloor> + 50"

text \<open>
  The text of the audit greeting, for the texts of the company, the score, the hours, the
  zone and the count.
\<close>

definition audit_text :: "jstring \<Rightarrow> jstring \<Rightarrow> jstring \<Rightarrow> jstring \<Rightarrow> jstring \<Rightarrow> jstring" where
  "audit_text company score hours zone count =
     cu ''I see you just completed an intelligence audit for '' @ company @ cu ''.'' @ [10, 10]
     @ cu ''Your waste score is '' @ score @ cu ''/100, with '' @ hours
     @ cu '' hours lost monthly.'' @ [10, 10]
     @ cu ''Top waste zone: '' @ zone @ [10, 10]
     @ cu ''I've analyzed '' @ count
     @ cu '' similar businesses. Want to see what worked for them?''"

definition roi_greeting :: "platform \<Rightarrow> jsval \<Rightarrow> error + jstring" where
  "roi_greeting P context =
     (case to_locale_string P (get_prop context (cu ''annual_savings'')) of
        Inl e \<Rightarrow> Inl e
      | Inr savings \<Rightarrow>
     (case to_fixed P (get_prop context (cu ''roi_percentage'')) of
        Inl e \<Rightarrow> Inl e
      | Inr roi \<Rightarrow>
          concatE
            [Inr (cu ''I see you just calculated ROI for ''),
             to_string P (get_prop context (cu ''process_name'')),
             Inr (cu ''.'' @ [10, 10]),
             Inr (cu ''Your projection shows ''), Inr savings,
             Inr (cu '' annual savings with ''), Inr roi,
             Inr (cu ''% ROI, breaking even in ''),
             to_string P (get_prop context (cu ''breakeven_months'')),
             Inr (cu '' months.'' @ [10, 10]),
             Inr (if get_prop context (cu ''risk_level'') = JStr (cu ''Low'') then
                    cu ''This looks like a strong automation candidate. Want to explore implementation options?''
                  else if get_prop context (cu ''risk_level'') = JStr (cu ''Medium'') then
                    cu ''There are some considerations to address. Let's discuss how to de-risk this project.''
                  else
                    cu ''I notice some challenges with this automation. Let's find a better starting point for your AI journey.'')]))"

definition readiness_greeting :: "platform \<Rightarrow> jsval \<Rightarrow> error + jstring" where
  "readiness_greeting P context =
     (let score = get_prop context (cu ''overall_score'');
          level = get_prop context (cu ''readiness_level'')
      in concatE
           [Inr (cu ''I see you scored ''), to_string P score,
            Inr (cu ''/100 on AI readiness (''), to_string P level,
            Inr (cu '').'' @ [10, 10]),
            (case ge_num P score 75 of
               Inl e \<Rightarrow> Inl e
             | Inr True \<Rightarrow>
                 Inr (cu ''You're in great shape! Let's talk about which automation to build first.'')
             | Inr False \<Rightarrow>
                 (case ge_num P score 60 of
                    Inl e \<Rightarrow> Inl e
                  | Inr True \<Rightarrow>
                      Inr (cu ''You have solid foundations. Want to address the gaps before we start building?'')
                  | Inr False \<Rightarrow>
                      Inr (cu ''Let's work on strengthening your foundations. I can show you the fastest path forward.'')))])"

definition audit_greeting :: "platform \<Rightarrow> rat \<Rightarrow> jsval \<Rightarrow> error + jstring" where
  "audit_greeting P rnd context =
     concatE
       [Inr (cu ''I see you just completed an intelligence audit for ''),
        to_string P (get_prop context (cu ''company_name'')),
        Inr (cu ''.'' @ [10, 10]),
        Inr (cu ''Your waste score is ''),
        to_string P (get_prop context (cu ''waste_score'')),
        Inr (cu ''/100, with ''),
        to_string P (get_prop context (cu ''total_hours_wasted'')),
        Inr (cu '' hours lost monthly.'' @ [10, 10]),
        Inr (cu ''Top waste zone: ''),
        to_string P (topZone (get_prop context (cu ''top_waste_zones''))),
        Inr [10, 10],
        Inr (cu ''I've analyzed ''),
        Inr (number_to_string P (patternCount P rnd)),
        Inr (cu '' similar businesses. Want to see what worked for them?'')]"

definition generateGreeting :: "platform \<Rightarrow> rat \<Rightarrow> jsval \<Rightarrow> error + jstring" where
  "generateGreeting P rnd context =
     (if \<not> truthy context then Inr generic_greeting
      else if get_prop context (cu ''annual_savings'') \<noteq> JUndefined then roi_greeting P context
      else if get_prop context (cu ''overall_score'') \<noteq> JUndefined then readiness_greeting P context
      else if get_prop context (cu ''waste_score'') \<noteq> JUndefined then audit_greeting P rnd context
      else Inr generic_greeting)"

section \<open>Context resolution\<close>

text \<open>\<open>s.split(sep)\<close> for a separator of one code unit.\<close>

fun split_on :: "nat \<Rightarrow> jstring \<Rightarrow> jstring list" where
  "split_on sep [] = [[]]"
| "split_on sep (c # cs) =
     (if c = sep then [] # split_on sep cs
      else (case split_on sep cs of [] \<Rightarrow> [[c]] | p # ps \<Rightarrow> (c # p) # ps))"

text \<open>\<open>window.location.hash.split('?')[1] || ''\<close>\<close>

definition hashParams :: "jstring \<Rightarrow> jstring" where
  "hashParams hash = (case split_on 63 hash of _ # q # _ \<Rightarrow> q | _ \<Rightarrow> [])"

text \<open>
  \<open>new URLSearchParams(q)\<close>: the pieces between \<open>&\<close> that are not empty, each cut at
  its first \<open>=\<close>, name and value decoded.
\<close>

definition url_params :: "platform \<Rightarrow> jstring \<Rightarrow> (jstring \<times> jstring) list" where
  "url_params P q =
     map (\<lambda>p. (form_decode P (takeWhile (\<lambda>c. c \<noteq> 61) p),
                form_decode P (drop 1 (dropWhile (\<lambda>c. c \<noteq> 61) p))))
       (filter (\<lambda>p. p \<noteq> []) (split_on 38 q))"

text \<open>\<open>urlParams.get('session')\<close>: the first value of that name, \<open>None\<close> for \<open>null\<close>.\<close>

definition session_param :: "platform \<Rightarrow> jstring \<Rightarrow> jstring option" where
  "session_param P hash = map_of (url_params P (hashParams hash)) (cu ''session'')"

definition TOOL3_API :: jstring where
  "TOOL3_API = cu ''https://tool3-business-intel-backend-production.up.railway.app''"

definition TOOL4_API :: jstring where
  "TOOL4_API = cu ''https://tool4-ai-readiness-production.up.railway.app''"

definition TOOL5_API :: jstring where
  "TOOL5_API = cu ''https://tool5-roi-projector-production.up.railway.app''"

definition session_url :: "jstring \<Rightarrow> jstring \<Rightarrow> jstring" where
  "session_url api sid = api @ cu ''/api/session/'' @ sid"

text \<open>
  What a \<open>fetch\<close> followed by \<open>response.json()\<close> can do: the request fails, or a response
  arrives with its \<open>ok\<close> flag and a body that parses to a value or does not.
\<close>

datatype fetch_result = NetworkError | Response bool "jsval option"

text \<open>
  One \<open>try\<close> block of \<open>loadAuditContext\<close>: \<open>Some v\<close> when it returns \<open>v\<close>. A failed
  request and a body that does not parse are both caught, and the function goes on.
\<close>

definition probe :: "(jstring \<Rightarrow> fetch_result) \<Rightarrow> jstring \<Rightarrow> jsval option" where
  "probe net url =
     (case net url of
        NetworkError \<Rightarrow> None
      | Response ok body \<Rightarrow> if ok then body else None)"

text \<open>The result of \<open>loadAuditContext\<close> and the addresses it has fetched, in order.\<close>

definition loadAuditContext ::
  "platform \<Rightarrow> (jstring \<Rightarrow> fetch_result) \<Rightarrow> jstring \<Rightarrow> jsval \<times> jstring list" where
  "loadAuditContext P net hash =
     (case session_param P hash of
        None \<Rightarrow> (JNull, [])
      | Some auditSessionId \<Rightarrow>
          if auditSessionId = [] then (JNull, [])
          else
            (let u5 = session_url TOOL5_API auditSessionId;
                 u4 = session_url TOOL4_API auditSessionId;
                 u3 = session_url TOOL3_API auditSessionId
             in case probe net u5 of
                  Some context \<Rightarrow> (context, [u5])
                | None \<Rightarrow>
                    (case probe net u4 of
                       Some context \<Rightarrow> (context, [u5, u4])
                     | None \<Rightarrow>
                         (case probe net u3 of
                            Some context \<Rightarrow> (context, [u5, u4, u3])
                          | None \<Rightarrow> (JNull, [u5, u4, u3])))))"

section \<open>The widget\<close>

text \<open>
  The children of \<open>#chatMessages\<close>: a message with its sender and the \<open>innerHTML\<close> of
  its bubble, or the typing indicator.
\<close>

datatype element = Message bool jstring | TypingIndicator

text \<open>
  What the widget does to the world outside its variables and the page, in order;
  \<open>ChatSettled\<close> marks the moment the wait for a chat exchange ends.
\<close>

datatype effect =
    StorageGet jstring
  | StorageSet jstring jstring
  | ChatRequest jstring jsval
  | ChatSettled
  | ConsoleError jstring jsval

record widget =
  sessionId :: "jstring option"
  isWaitingForResponse :: bool
  auditContext :: jsval
  localStorage :: "jstring \<rightharpoonup> jstring"
  chatMessages :: "element list"
  nuruInput :: jstring
  effects :: "effect list"

definition BACKEND_URL :: jstring where
  "BACKEND_URL = cu ''https://tool6-client-intake-production.up.railway.app''"

definition session_key :: jstring where
  "session_key = cu ''nuru_session_id''"

text \<open>\<open>!sessionId\<close>: \<open>null\<close> or the empty string.\<close>

definition no_id :: "jstring option \<Rightarrow> bool" where
  "no_id v = (case v of None \<Rightarrow> True | Some s \<Rightarrow> s = [])"

text \<open>
  \<open>'session_' + Date.now() + '_' + Math.random().toString(36).substr(2, 9)\<close>, for the
  text \<open>stamp\<close> of the clock and the text \<open>salt\<close> drawn from the random number.
\<close>

definition new_session_id :: "jstring \<Rightarrow> jstring \<Rightarrow> jstring" where
  "new_session_id stamp salt = cu ''session_'' @ stamp @ cu ''_'' @ salt"

definition getSessionId :: "jstring \<Rightarrow> jstring \<Rightarrow> widget \<Rightarrow> jstring \<times> widget" where
  "getSessionId stamp salt w =
     (if no_id (sessionId w) then
        (let stored = localStorage w session_key;
             w1 = w\<lparr>sessionId := stored, effects := effects w @ [StorageGet session_key]\<rparr>
         in if no_id stored then
              (let fresh = new_session_id stamp salt
               in (fresh,
                   w1\<lparr>sessionId := Some fresh,
                      localStorage := (localStorage w1)(session_key \<mapsto> fresh),
                      effects := effects w1 @ [StorageSet session_key fresh]\<rparr>))
            else (case stored of None \<Rightarrow> ([], w1) | Some s \<Rightarrow> (s, w1)))
      else (case sessionId w of None \<Rightarrow> ([], w) | Some s \<Rightarrow> (s, w)))"

text \<open>A new page view: the module's variables start again, the storage stays.\<close>

definition fresh_view :: "widget \<Rightarrow> widget" where
  "fresh_view w =
     w\<lparr>sessionId := None, isWaitingForResponse := False, auditContext := JNull,
       chatMessages := [], nuruInput := []\<rparr>"

text \<open>
  \<open>addMessage(content, true)\<close>: the text is escaped and its line feeds become \<open><br>\<close>.
\<close>

definition addMessage_user :: "jstring \<Rightarrow> widget \<Rightarrow> widget" where
  "addMessage_user content w =
     w\<lparr>chatMessages := chatMessages w @ [Message True (br_pass (escape_html content))]\<rparr>"

text \<open>
  \<open>addMessage(content, false)\<close>: \<open>parseMarkdown\<close> returns the empty string for a falsy
  value and calls \<open>replace\<close> on any other, which only a string has; the call raises
  before the bubble is appended.
\<close>

definition addMessage_ai :: "jsval \<Rightarrow> widget \<Rightarrow> error + widget" where
  "addMessage_ai content w =
     (if \<not> truthy content then Inr (w\<lparr>chatMessages := chatMessages w @ [Message False []]\<rparr>)
      else (case content of
              JStr s \<Rightarrow>
                Inr (w\<lparr>chatMessages := chatMessages w @ [Message False (parseMarkdown s)]\<rparr>)
            | _ \<Rightarrow> Inl TypeError))"

definition showTyping :: "widget \<Rightarrow> widget" where
  "showTyping w = w\<lparr>chatMessages := chatMessages w @ [TypingIndicator]\<rparr>"

text \<open>\<open>getElementById\<close> finds the first element of that id, which is removed.\<close>

definition hideTyping :: "widget \<Rightarrow> widget" where
  "hideTyping w = w\<lparr>chatMessages := remove1 TypingIndicator (chatMessages w)\<rparr>"

text \<open>WhiteSpace and LineTerminator, which \<open>trim\<close> removes at both ends.\<close>

definition isSpace :: "nat \<Rightarrow> bool" where
  "isSpace c =
     (c \<in> {9, 10, 11, 12, 13, 32, 160, 5760, 8232, 8233, 8239, 8287, 12288, 65279}
      \<or> (8192 \<le> c \<and> c \<le> 8202))"

definition trim :: "jstring \<Rightarrow> jstring" where
  "trim s = rev (dropWhile isSpace (rev (dropWhile isSpace s)))"

definition apology_error :: jstring where
  "apology_error = cu ''Sorry, I encountered an error. Please try again.''"

definition apology_connection :: jstring where
  "apology_connection = cu ''Sorry, I'm having trouble connecting. Please try again.''"

text \<open>
  \<open>sendNuruMessage\<close> up to its \<open>await fetch\<close>: nothing at all while a request is pending
  or when the trimmed input is empty.
\<close>

definition sendNuruMessage_start :: "jstring \<Rightarrow> jstring \<Rightarrow> widget \<Rightarrow> widget" where
  "sendNuruMessage_start stamp salt w =
     (if isWaitingForResponse w then w
      else
        (let message = trim (nuruInput w)
         in if message = [] then w
            else
              (let w1 = addMessage_user message w;
                   w2 = w1\<lparr>nuruInput := []\<rparr>;
                   w3 = w2\<lparr>isWaitingForResponse := True\<rparr>;
                   w4 = showTyping w3;
                   (sid, w5) = getSessionId stamp salt w4;
                   requestBody =
                     [(cu ''message'', JStr message), (cu ''session_id'', JStr sid)]
                     @ (if truthy (auditContext w5)
                        then [(cu ''audit_context'', auditContext w5)] else [])
               in w5\<lparr>effects := effects w5
                        @ [ChatRequest (BACKEND_URL @ cu ''/api/chat'') (JObj requestBody)]\<rparr>)))"

text \<open>
  How the awaited exchange ends: the request fails, the body of the response does not
  parse, or it parses to a value.
\<close>

datatype chat_outcome = FetchRejected | BodyRejected | Body jsval

text \<open>The statements of the \<open>try\<close> block behind \<open>await response.json()\<close>.\<close>

definition on_data :: "jsval \<Rightarrow> widget \<Rightarrow> error + widget" where
  "on_data data w =
     (let w1 = hideTyping w
      in if nullish data then Inl TypeError
         else if truthy (get_prop data (cu ''response'')) then
           addMessage_ai (get_prop data (cu ''response'')) w1
         else if truthy (get_prop data (cu ''error'')) then
           (case addMessage_ai (JStr apology_error) w1 of
              Inl e \<Rightarrow> Inl e
            | Inr w2 \<Rightarrow>
                Inr (w2\<lparr>effects := effects w2
                          @ [ConsoleError (cu ''Backend error:'') (get_prop data (cu ''error''))]\<rparr>))
         else Inr w1)"

text \<open>The \<open>catch\<close> block; the error object it logs is not modelled.\<close>

definition on_catch :: "widget \<Rightarrow> widget" where
  "on_catch w =
     (let w1 = hideTyping w;
          w2 = w1\<lparr>chatMessages := chatMessages w1 @ [Message False (parseMarkdown apology_connection)]\<rparr>
      in w2\<lparr>effects := effects w2 @ [ConsoleError (cu ''Connection error:'') JUndefined]\<rparr>)"

text \<open>
  \<open>sendNuruMessage\<close> from the end of its wait to its return. When a statement of the
  \<open>try\<close> block raises, the \<open>catch\<close> block runs on the state reached so far, in which
  only the typing indicator can have changed.
\<close>

definition sendNuruMessage_settle :: "chat_outcome \<Rightarrow> widget \<Rightarrow> widget" where
  "sendNuruMessage_settle outcome w =
     (let w0 = w\<lparr>effects := effects w @ [ChatSettled]\<rparr>;
          w1 = (case outcome of
                  FetchRejected \<Rightarrow> on_catch w0
                | BodyRejected \<Rightarrow> on_catch w0
                | Body data \<Rightarrow>
                    (case on_data data w0 of
                       Inl e \<Rightarrow> on_catch (hideTyping w0)
                     | Inr w' \<Rightarrow> w'))
      in w1\<lparr>isWaitingForResponse := False\<rparr>)"

text \<open>Requests sent and not yet settled.\<close>

definition outstanding :: "widget \<Rightarrow> nat" where
  "outstanding w =
     length (filter (\<lambda>e. case e of ChatRequest _ _ \<Rightarrow> True | _ \<Rightarrow> False) (effects w))
     - length (filter (\<lambda>e. e = ChatSettled) (effects w))"

text \<open>
  What happens to the widget between page load and unload: the user submits a text, or a
  pending exchange ends. An exchange can only end when one is pending.
\<close>

datatype event = Submit jstring | Settle chat_outcome

definition step :: "jstring \<Rightarrow> jstring \<Rightarrow> event \<Rightarrow> widget \<Rightarrow> widget" where
  "step stamp salt ev w =
     (case ev of
        Submit text \<Rightarrow> sendNuruMessage_start stamp salt (w\<lparr>nuruInput := text\<rparr>)
      | Settle outcome \<Rightarrow> if outstanding w = 0 then w else sendNuruMessage_settle outcome w)"

fun run :: "jstring \<Rightarrow> jstring \<Rightarrow> event list \<Rightarrow> widget \<Rightarrow> widget" where
  "run stamp salt [] w = w"
| "run stamp salt (ev # evs) w = run stamp salt evs (step stamp salt ev w)"

section \<open>A platform for the examples\<close>

text \<open>
  The runtime functions as far as the examples below use them: integers, products that
  need no rounding, and query strings without escapes.
\<close>

fun dec_digits :: "nat \<Rightarrow> jstring" where
  "dec_digits n = (if n < 10 then [48 + n] else dec_digits (n div 10) @ [48 + n mod 10])"

declare dec_digits.simps [simp del]

definition int_text :: "rat \<Rightarrow> jstring" where
  "int_text q = (if q < 0 then 45 # dec_digits (nat \<lfloor>- q\<rfloor>) else dec_digits (nat \<lfloor>q\<rfloor>))"

definition example_platform :: platform where
  "example_platform =
     \<lparr>number_to_string = int_text,
      multiply = (\<lambda>a b. a * b),
      to_fixed1 = (\<lambda>q. int_text q @ cu ''.0''),
      currency_en_US = (\<lambda>q. 36 # int_text q),
      string_to_number = (\<lambda>s. None),
      form_decode = (\<lambda>s. s)\<rparr>"

definition example_widget :: widget where
  "example_widget =
     \<lparr>sessionId = None, isWaitingForResponse = False, auditContext = JNull,
      localStorage = Map.empty, chatMessages = [], nuruInput = cu ''hi'', effects = []\<rparr>"

text \<open>A context that reaches the third branch of \<open>generateGreeting\<close>.\<close>

definition audit_shaped :: "jsval \<Rightarrow> bool" where
  "audit_shaped context =
     (truthy context \<and> get_prop context (cu ''annual_savings'') = JUndefined
      \<and> get_prop context (cu ''overall_score'') = JUndefined
      \<and> get_prop context (cu ''waste_score'') \<noteq> JUndefined)"

definition example_audit :: jsval where
  "example_audit =
     JObj [(cu ''company_name'', JStr (cu ''Acme'')), (cu ''waste_score'', JNum 70),
           (cu ''total_hours_wasted'', JNum 12), (cu ''top_waste_zones'', JArr [JObj []])]"

definition example_readiness :: jsval where
  "example_readiness =
     JObj [(cu ''overall_score'', JNum 80), (cu ''readiness_level'', JStr (cu ''High''))]"

text \<open>The widget after the user has submitted \<open>hi\<close> on a fresh page.\<close>

definition pending_widget :: widget where
  "pending_widget =
     sendNuruMessage_start (cu ''1700000000000'') (cu ''k3j9x0q1z'') example_widget"

text \<open>A probe answers when its status is a success and its body parses; else it misses.\<close>

definition answers :: "fetch_result \<Rightarrow> jsval \<Rightarrow> bool" where
  "answers r v = (r = Response True (Some v))"

definition misses :: "fetch_result \<Rightarrow> bool" where
  "misses r = (case r of Response True (Some v) \<Rightarrow> False | _ \<Rightarrow> True)"

text \<open>Networks for the examples: which of the three tools knows the session.\<close>

definition net_readiness_only :: "jstring \<Rightarrow> fetch_result" where
  "net_readiness_only url =
     (if url = session_url TOOL4_API (cu ''abc'') then Response True (Some example_readiness)
      else Response False None)"

definition net_roi_unparsed :: "jstring \<Rightarrow> fetch_result" where
  "net_roi_unparsed url =
     (if url = session_url TOOL5_API (cu ''abc'') then Response True None
      else if url = session_url TOOL4_API (cu ''abc'') then Response True (Some example_readiness)
      else Response False None)"

text \<open>Chat requests sent and exchanges ended, counted in the trace.\<close>

definition requests :: "effect list \<Rightarrow> nat" where
  "requests es =
     length (filter (\<lambda>e. case e of ChatRequest _ _ \<Rightarrow> True | _ \<Rightarrow> False) es)"

definition settled :: "effect list \<Rightarrow> nat" where
  "settled es = length (filter (\<lambda>e. e = ChatSettled) es)"

text \<open>The pending flag is set exactly while one request is not settled.\<close>

definition flag_matches :: "widget \<Rightarrow> bool" where
  "flag_matches w =
     (requests (effects w) = settled (effects w) + (if isWaitingForResponse w then 1 else 0))"

section \<open>Invariants of the renderer\<close>

text \<open>
  The code units that follow \<open><\<close> in the tags the renderer writes: the second one, and
  the third one behind \<open><s\<close>, always \<open>t\<close>, and behind \<open><h\<close>, one of \<open>4\<close>,
  \<open>3\<close>, \<open>r\<close>.
\<close>

definition tag_second :: "nat \<Rightarrow> bool" where
  "tag_second c = (c = 104 \<or> c = 47 \<or> c = 115 \<or> c = 101 \<or> c = 108 \<or> c = 117 \<or> c = 98 \<or> c = 112)"

definition tag_third :: "nat \<Rightarrow> nat \<Rightarrow> bool" where
  "tag_third d e = ((d = 115 \<longrightarrow> e = 116) \<and> (d = 104 \<longrightarrow> e = 52 \<or> e = 51 \<or> e = 114))"

definition tag_char :: "nat \<Rightarrow> bool" where
  "tag_char c = (tag_second c \<or> c = 116 \<or> c = 52 \<or> c = 51 \<or> c = 114)"

definition after_lt :: "jstring \<Rightarrow> bool" where
  "after_lt cs =
     (case cs of
        [] \<Rightarrow> False
      | d # ds \<Rightarrow>
          tag_second d
          \<and> (d = 115 \<or> d = 104 \<longrightarrow> (case ds of [] \<Rightarrow> False | e # _ \<Rightarrow> tag_third d e)))"

text \<open>
  Every \<open><\<close> is followed by the second code unit of a tag, every \<open><s\<close> by \<open>t\<close>
  and every \<open><h\<close> by \<open>4\<close>, \<open>3\<close> or \<open>r\<close>: the text holds no \<open><sc\<close> and no
  \<open><o\<close>.
\<close>

fun tagsafe :: "jstring \<Rightarrow> bool" where
  "tagsafe [] = True"
| "tagsafe (c # cs) = ((c = 60 \<longrightarrow> after_lt cs) \<and> tagsafe cs)"

text \<open>
  A matcher that never starts on the second or third code unit of a tag, and a
  replacement that is safe whenever the input is.
\<close>

definition starts_off_tags :: "matcher \<Rightarrow> bool" where
  "starts_off_tags m =
     ((\<forall>prev c cs. tag_second c \<longrightarrow> m prev (c # cs) = None)
      \<and> (\<forall>d c cs. (d = 115 \<or> d = 104) \<and> tag_third d c \<longrightarrow> m (Some d) (c # cs) = None))"

definition keeps_tagsafe :: "matcher \<Rightarrow> (jstring \<Rightarrow> jstring \<Rightarrow> jstring) \<Rightarrow> bool" where
  "keeps_tagsafe m f =
     (\<forall>prev s mt g. m prev s = Some (mt, g) \<and> tagsafe s \<longrightarrow>
        mt \<noteq> [] \<and> prefix mt s \<and> tagsafe (f mt g))"

text \<open>What the three replacements of \<open>escape_html\<close> do to one code unit.\<close>

definition esc :: "nat \<Rightarrow> jstring" where
  "esc c = (if c = 38 then cu ''&amp;'' else if c = 60 then cu ''&lt;''
            else if c = 62 then cu ''&gt;'' else [c])"




text \<open>
  A line of hyphens at the start of the text, and a matcher that finds nothing on it: not
  at its end, nor on a hyphen with a hyphen before or behind it.
\<close>

definition skips_rule :: "matcher \<Rightarrow> bool" where
  "skips_rule m =
     ((\<forall>prev. m prev [] = None)
      \<and> (\<forall>prev c cs. isLT c \<or> (c = 45 \<and> (prev = Some 45 \<or> (\<exists>ds. cs = 45 # ds)))
            \<longrightarrow> m prev (c # cs) = None))"

definition rule_line :: "nat \<Rightarrow> jstring \<Rightarrow> bool" where
  "rule_line n s = (\<exists>r. s = replicate n 45 @ r \<and> (r = [] \<or> isLT (hd r)))"

section \<open>Evaluation\<close>

lemma cu_Nil [simp]: "cu [] = []"
  by (simp add: cu_def)

lemma cu_Cons [simp]: "cu (c # s) = of_char c # cu s"
  by (simp add: cu_def)

lemmas md_eval =
  parseMarkdown_def render_body_def markup_passes_def starts_block_def escape_html_def h4_pass_def h3_pass_def
  bold_pass_def italic_pass_def bullet_pass_def ul_pass_def numbered_pass_def hr_pass_def
  para_pass_def br_pass_def re_lit_def re_line_def pre_lit_def pre_bullet_def pre_numbered_def
  re_hr_def re_bold_def re_italic_def re_ul_def li_run.simps li_item_def tag_wrap_def const_rep_def
  ul_rep_def bol_def isLT_def isDigit_def Let_def

lemma int_text_examples:
  "int_text 70 = cu ''70''" "int_text 12 = cu ''12''" "int_text 50 = cu ''50''"
  "int_text 75 = cu ''75''" "int_text 80 = cu ''80''"
  by (simp_all add: int_text_def dec_digits.simps)

lemma patternCount_examples:
  "patternCount example_platform 0 = 50" "patternCount example_platform (1 / 2) = 75"
  by (simp_all add: patternCount_def example_platform_def)

lemma session_param_none: "session_param example_platform (cu ''#/chat'') = None"
  by (simp add: session_param_def url_params_def hashParams_def example_platform_def)

lemma session_param_abc:
  "session_param example_platform (cu ''#/chat?session=abc'') = Some (cu ''abc'')"
  by (simp add: session_param_def url_params_def hashParams_def example_platform_def)

lemma pending_widget_eq:
  "pending_widget =
     \<lparr>sessionId = Some (cu ''session_1700000000000_k3j9x0q1z''),
      isWaitingForResponse = True, auditContext = JNull,
      localStorage = [session_key \<mapsto> cu ''session_1700000000000_k3j9x0q1z''],
      chatMessages = [Message True (cu ''hi''), TypingIndicator], nuruInput = [],
      effects =
        [StorageGet session_key,
         StorageSet session_key (cu ''session_1700000000000_k3j9x0q1z''),
         ChatRequest (BACKEND_URL @ cu ''/api/chat'')
           (JObj [(cu ''message'', JStr (cu ''hi'')),
                  (cu ''session_id'', JStr (cu ''session_1700000000000_k3j9x0q1z''))])]\<rparr>"
  by (simp add: pending_widget_def example_widget_def sendNuruMessage_start_def trim_def
      isSpace_def addMessage_user_def showTyping_def getSessionId_def no_id_def
      new_session_id_def Let_def br_pass_def escape_html_def re_lit_def const_rep_def)

lemma apology_error_html:
  "parseMarkdown apology_error =
     cu ''<p class=\"nuru-p\">Sorry, I encountered an error. Please try again.</p>''"
  by (simp add: apology_error_def md_eval)

section \<open>Context resolution: the order of the probes\<close>

text \<open>
  C7. A fragment whose query has no \<open>session\<close> parameter resolves to \<open>null\<close> and no
  address is fetched.
\<close>

theorem no_session_no_network:
  "session_param P hash = None \<Longrightarrow> loadAuditContext P net hash = (JNull, [])"
  by (simp add: loadAuditContext_def)

theorem no_session_no_network_witness:
  "session_param example_platform (cu ''#/chat'') = None
   \<and> loadAuditContext example_platform net_readiness_only (cu ''#/chat'') = (JNull, [])"
  using no_session_no_network [OF session_param_none, of net_readiness_only]
    session_param_none
  by simp

text \<open>
  C1, as the code has it. The probes go to Tool 5, Tool 4, Tool 3 in this order. The first
  one that answers, with a success status and a body that parses, gives the context, and
  no later address is fetched. A probe that misses, be it by a failed request, a status
  that is no success or a body that does not parse, is followed by the next one; when all
  three miss the result is \<open>null\<close>.
\<close>

theorem first_answer_wins:
  assumes "session_param P hash = Some sid" and "sid \<noteq> []"
  defines "u5 \<equiv> session_url TOOL5_API sid"
    and "u4 \<equiv> session_url TOOL4_API sid"
    and "u3 \<equiv> session_url TOOL3_API sid"
  shows "(answers (net u5) v \<longrightarrow> loadAuditContext P net hash = (v, [u5]))
       \<and> (misses (net u5) \<and> answers (net u4) v \<longrightarrow>
            loadAuditContext P net hash = (v, [u5, u4]))
       \<and> (misses (net u5) \<and> misses (net u4) \<and> answers (net u3) v \<longrightarrow>
            loadAuditContext P net hash = (v, [u5, u4, u3]))
       \<and> (misses (net u5) \<and> misses (net u4) \<and> misses (net u3) \<longrightarrow>
            loadAuditContext P net hash = (JNull, [u5, u4, u3]))"
  using assms(1,2) unfolding u5_def u4_def u3_def
  by (auto simp: loadAuditContext_def probe_def Let_def answers_def misses_def
      split: fetch_result.splits option.splits bool.splits)

text \<open>Only Tool 4 knows the session: its body is the context, Tool 3 is not asked.\<close>

theorem first_answer_wins_witness:
  "loadAuditContext example_platform net_readiness_only (cu ''#/chat?session=abc'')
     = (example_readiness,
        [session_url TOOL5_API (cu ''abc''), session_url TOOL4_API (cu ''abc'')])"
proof -
  have ne: "cu ''abc'' \<noteq> []" by simp
  have m5: "misses (net_readiness_only (session_url TOOL5_API (cu ''abc'')))"
    by (simp add: misses_def net_readiness_only_def session_url_def TOOL5_API_def TOOL4_API_def)
  have a4: "answers (net_readiness_only (session_url TOOL4_API (cu ''abc''))) example_readiness"
    by (simp add: answers_def net_readiness_only_def)
  from first_answer_wins [OF session_param_abc ne, of net_readiness_only example_readiness]
    m5 a4
  show ?thesis by blast
qed

text \<open>
  C1, as stated, fails: Tool 5 returns a success status with a body that does
  not parse, and the code goes on to fetch from Tool 4.
\<close>

theorem success_status_unparsed_counterexample:
  "net_roi_unparsed (session_url TOOL5_API (cu ''abc'')) = Response True None
   \<and> loadAuditContext example_platform net_roi_unparsed (cu ''#/chat?session=abc'')
     = (example_readiness,
        [session_url TOOL5_API (cu ''abc''), session_url TOOL4_API (cu ''abc'')])"
proof -
  have r5: "net_roi_unparsed (session_url TOOL5_API (cu ''abc'')) = Response True None"
    by (simp add: net_roi_unparsed_def)
  have r4: "net_roi_unparsed (session_url TOOL4_API (cu ''abc''))
              = Response True (Some example_readiness)"
    by (simp add: net_roi_unparsed_def session_url_def TOOL5_API_def TOOL4_API_def)
  show ?thesis
    using r5 r4 session_param_abc
    by (simp add: loadAuditContext_def probe_def Let_def)
qed

section \<open>The session identifier\<close>

text \<open>
  C9. On a page view, the first call of \<open>getSessionId\<close> returns an identifier, the
  second call returns the same one without touching the storage, and the first call of
  the next page view over the same storage returns it again; no call after the first
  changes the variable or the stored entry.
\<close>

theorem getSessionId_stable:
  "(let (a, w1) = getSessionId st1 sa1 (fresh_view w);
        (b, w2) = getSessionId st2 sa2 w1;
        (c, w3) = getSessionId st3 sa3 (fresh_view w2)
    in b = a \<and> c = a \<and> a \<noteq> []
       \<and> effects w2 = effects w1
       \<and> sessionId w1 = Some a \<and> sessionId w2 = Some a \<and> sessionId w3 = Some a
       \<and> localStorage w1 session_key = Some a
       \<and> localStorage w2 = localStorage w1 \<and> localStorage w3 = localStorage w1)"
  by (auto simp: getSessionId_def fresh_view_def no_id_def new_session_id_def Let_def
      split: option.splits prod.splits if_splits)

theorem getSessionId_stable_witness:
  "fst (getSessionId (cu ''3'') (cu ''c'')
         (fresh_view (snd (getSessionId (cu ''2'') (cu ''b'')
           (snd (getSessionId (cu ''1'') (cu ''a'') (fresh_view example_widget)))))))
     = fst (getSessionId (cu ''1'') (cu ''a'') (fresh_view example_widget))"
  using getSessionId_stable [of "cu ''1''" "cu ''a''" example_widget "cu ''2''" "cu ''b''"
      "cu ''3''" "cu ''c''"]
  by (simp add: Let_def split: prod.splits)

section \<open>Greeting\<close>

lemma audit_greeting_text:
  "audit_greeting P rnd context =
     (case to_string P (get_prop context (cu ''company_name'')) of
        Inl e \<Rightarrow> Inl e
      | Inr a \<Rightarrow>
     (case to_string P (get_prop context (cu ''waste_score'')) of
        Inl e \<Rightarrow> Inl e
      | Inr b \<Rightarrow>
     (case to_string P (get_prop context (cu ''total_hours_wasted'')) of
        Inl e \<Rightarrow> Inl e
      | Inr c \<Rightarrow>
     (case to_string P (topZone (get_prop context (cu ''top_waste_zones''))) of
        Inl e \<Rightarrow> Inl e
      | Inr z \<Rightarrow> Inr (audit_text a b c z (number_to_string P (patternCount P rnd)))))))"
  by (cases "to_string P (get_prop context (cu ''company_name''))";
      cases "to_string P (get_prop context (cu ''waste_score''))";
      cases "to_string P (get_prop context (cu ''total_hours_wasted''))";
      cases "to_string P (topZone (get_prop context (cu ''top_waste_zones'')))")
    (simp_all add: audit_greeting_def audit_text_def)

lemma audit_shaped_greeting:
  "audit_shaped context \<Longrightarrow> generateGreeting P rnd context = audit_greeting P rnd context"
  by (simp add: generateGreeting_def audit_shaped_def)

lemma audit_text_count:
  "audit_text a b c z n = audit_text a b c z n' \<longleftrightarrow> n = n'"
  by (simp add: audit_text_def del: cu_Cons cu_Nil)

text \<open>
  C3, as the code has it. The greeting is a function of the context alone unless the
  context reaches the audit branch. There the draw of \<open>Math.random()\<close> enters, and only
  through the text of the count: with two draws the greeting raises for both or for
  none, with the same error, and two greetings returned are the same text exactly when
  the two counts have the same text.
\<close>

theorem greeting_depends_on_draw_only_for_audit:
  "(\<not> audit_shaped context \<longrightarrow>
      generateGreeting P r1 context = generateGreeting P r2 context)
   \<and> (audit_shaped context \<longrightarrow>
        (generateGreeting P r1 context = Inl e \<longleftrightarrow> generateGreeting P r2 context = Inl e)
        \<and> (generateGreeting P r1 context = Inr g1 \<and> generateGreeting P r2 context = Inr g2 \<longrightarrow>
             (g1 = g2 \<longleftrightarrow>
                number_to_string P (patternCount P r1) = number_to_string P (patternCount P r2))))"
proof -
  have 1: "generateGreeting P r1 context = generateGreeting P r2 context"
    if "\<not> audit_shaped context"
    using that by (auto simp: generateGreeting_def audit_shaped_def)
  have 2: "generateGreeting P r1 context = Inl e \<longleftrightarrow> generateGreeting P r2 context = Inl e"
    if "audit_shaped context"
    using that by (simp add: audit_shaped_greeting audit_greeting_text split: sum.splits)
  have 3: "g1 = g2 \<longleftrightarrow>
      number_to_string P (patternCount P r1) = number_to_string P (patternCount P r2)"
    if "audit_shaped context" "generateGreeting P r1 context = Inr g1"
      "generateGreeting P r2 context = Inr g2"
    using that
    by (auto simp: audit_shaped_greeting audit_greeting_text audit_text_count split: sum.splits)
  from 1 2 3 show ?thesis by blast
qed

text \<open>
  A readiness context is greeted the same for the draws 0 and 1/2; an audit context is
  greeted with 50 businesses for the one and with 75 for the other.
\<close>

theorem greeting_depends_on_draw_only_for_audit_witness:
  "\<not> audit_shaped example_readiness
   \<and> generateGreeting example_platform 0 example_readiness
       = generateGreeting example_platform (1 / 2) example_readiness
   \<and> audit_shaped example_audit
   \<and> generateGreeting example_platform 0 example_audit
       = Inr (audit_text (cu ''Acme'') (cu ''70'') (cu ''12'') (cu ''undefined'') (cu ''50''))
   \<and> generateGreeting example_platform (1 / 2) example_audit
       = Inr (audit_text (cu ''Acme'') (cu ''70'') (cu ''12'') (cu ''undefined'') (cu ''75''))
   \<and> audit_text (cu ''Acme'') (cu ''70'') (cu ''12'') (cu ''undefined'') (cu ''50'')
       \<noteq> audit_text (cu ''Acme'') (cu ''70'') (cu ''12'') (cu ''undefined'') (cu ''75'')"
proof -
  let ?g0 = "audit_text (cu ''Acme'') (cu ''70'') (cu ''12'') (cu ''undefined'') (cu ''50'')"
  let ?g1 = "audit_text (cu ''Acme'') (cu ''70'') (cu ''12'') (cu ''undefined'') (cu ''75'')"
  have h: "\<not> audit_shaped example_readiness"
    by (simp add: audit_shaped_def example_readiness_def)
  have a: "audit_shaped example_audit"
    by (simp add: audit_shaped_def example_audit_def)
  have e0: "generateGreeting example_platform 0 example_audit = Inr ?g0"
    unfolding audit_shaped_greeting [OF a]
    by (simp add: audit_greeting_text example_audit_def topZone_def patternCount_examples)
      (simp add: example_platform_def int_text_examples)
  have e1: "generateGreeting example_platform (1 / 2) example_audit = Inr ?g1"
    unfolding audit_shaped_greeting [OF a]
    by (simp add: audit_greeting_text example_audit_def topZone_def patternCount_examples)
      (simp add: example_platform_def int_text_examples)
  have n: "number_to_string example_platform (patternCount example_platform 0)
      \<noteq> number_to_string example_platform (patternCount example_platform (1 / 2))"
    by (simp add: patternCount_examples) (simp add: example_platform_def int_text_examples)
  from greeting_depends_on_draw_only_for_audit
         [of example_readiness example_platform 0 "1 / 2"] h
  have "generateGreeting example_platform 0 example_readiness
       = generateGreeting example_platform (1 / 2) example_readiness" by blast
  moreover from greeting_depends_on_draw_only_for_audit
         [of example_audit example_platform 0 "1 / 2" _ ?g0 ?g1] a e0 e1 n
  have "?g0 \<noteq> ?g1" by blast
  ultimately show ?thesis using h a e0 e1 by blast
qed

text \<open>
  C3, as stated, fails: the same audit context greets with 50 businesses for the draw 0
  and with 75 for the draw 1/2.
\<close>

theorem greeting_random_counterexample:
  "generateGreeting example_platform 0 example_audit
     \<noteq> generateGreeting example_platform (1 / 2) example_audit"
  by (simp add: generateGreeting_def audit_greeting_def example_audit_def topZone_def
        patternCount_examples)
    (simp add: example_platform_def int_text_examples)

text \<open>
  C10, as the code has it. Take a context that reaches the audit branch and whose
  company, score and hours convert to text. When \<open>top_waste_zones\<close> is absent or
  otherwise falsy, or has no first element or a falsy one, the greeting is returned and
  names the zone \<open>operations\<close>. When the first element is truthy, its \<open>name\<close> is
  written as it converts to text, \<open>undefined\<close> when the element has none, and the
  greeting raises exactly when this conversion raises.
\<close>

theorem missing_zone_fallback:
  assumes "audit_shaped context"
    and "to_string P (get_prop context (cu ''company_name'')) = Inr a"
    and "to_string P (get_prop context (cu ''waste_score'')) = Inr b"
    and "to_string P (get_prop context (cu ''total_hours_wasted'')) = Inr c"
  shows "(\<not> truthy (get_prop context (cu ''top_waste_zones''))
          \<or> \<not> truthy (elem0 (get_prop context (cu ''top_waste_zones''))) \<longrightarrow>
            generateGreeting P rnd context =
              Inr (audit_text a b c (cu ''operations'')
                     (number_to_string P (patternCount P rnd))))
       \<and> (truthy (get_prop context (cu ''top_waste_zones''))
          \<and> truthy (elem0 (get_prop context (cu ''top_waste_zones''))) \<longrightarrow>
            generateGreeting P rnd context =
              (case to_string P
                      (get_prop (elem0 (get_prop context (cu ''top_waste_zones''))) (cu ''name'')) of
                 Inl e \<Rightarrow> Inl e
               | Inr z \<Rightarrow>
                   Inr (audit_text a b c z (number_to_string P (patternCount P rnd)))))
       \<and> (truthy (get_prop context (cu ''top_waste_zones''))
          \<and> truthy (elem0 (get_prop context (cu ''top_waste_zones'')))
          \<and> get_prop (elem0 (get_prop context (cu ''top_waste_zones''))) (cu ''name'') = JUndefined
            \<longrightarrow> generateGreeting P rnd context =
              Inr (audit_text a b c (cu ''undefined'')
                     (number_to_string P (patternCount P rnd))))"
  using assms
  by (auto simp: audit_shaped_greeting audit_greeting_text topZone_def split: sum.splits)

text \<open>
  An audit context with an empty list of zones, and one whose first zone has a name.
\<close>

theorem missing_zone_fallback_witness:
  "generateGreeting example_platform 0
     (JObj [(cu ''company_name'', JStr (cu ''Acme'')), (cu ''waste_score'', JNum 70),
            (cu ''total_hours_wasted'', JNum 12), (cu ''top_waste_zones'', JArr [])]) =
     Inr (audit_text (cu ''Acme'') (cu ''70'') (cu ''12'') (cu ''operations'') (cu ''50''))
   \<and> generateGreeting example_platform 0
     (JObj [(cu ''company_name'', JStr (cu ''Acme'')), (cu ''waste_score'', JNum 70),
            (cu ''total_hours_wasted'', JNum 12),
            (cu ''top_waste_zones'', JArr [JObj [(cu ''name'', JStr (cu ''Billing''))]])]) =
     Inr (audit_text (cu ''Acme'') (cu ''70'') (cu ''12'') (cu ''Billing'') (cu ''50''))
   \<and> audit_text (cu ''Acme'') (cu ''70'') (cu ''12'') (cu ''operations'') (cu ''50'') =
       cu ''I see you just completed an intelligence audit for Acme.'' @ [10, 10]
       @ cu ''Your waste score is 70/100, with 12 hours lost monthly.'' @ [10, 10]
       @ cu ''Top waste zone: operations'' @ [10, 10]
       @ cu ''I've analyzed 50 similar businesses. Want to see what worked for them?''"
proof -
  let ?c = "JObj [(cu ''company_name'', JStr (cu ''Acme'')), (cu ''waste_score'', JNum 70),
                  (cu ''total_hours_wasted'', JNum 12), (cu ''top_waste_zones'', JArr [])]"
  let ?d = "JObj [(cu ''company_name'', JStr (cu ''Acme'')), (cu ''waste_score'', JNum 70),
                  (cu ''total_hours_wasted'', JNum 12),
                  (cu ''top_waste_zones'', JArr [JObj [(cu ''name'', JStr (cu ''Billing''))]])]"
  have c1: "audit_shaped ?c" by (simp add: audit_shaped_def)
  have c2: "\<not> truthy (get_prop ?c (cu ''top_waste_zones''))
            \<or> \<not> truthy (elem0 (get_prop ?c (cu ''top_waste_zones'')))" by simp
  have c3: "to_string example_platform (get_prop ?c (cu ''company_name'')) = Inr (cu ''Acme'')"
    by simp
  have c4: "to_string example_platform (get_prop ?c (cu ''waste_score'')) = Inr (cu ''70'')"
    by (simp add: example_platform_def int_text_examples)
  have c5: "to_string example_platform (get_prop ?c (cu ''total_hours_wasted'')) = Inr (cu ''12'')"
    by (simp add: example_platform_def int_text_examples)
  have d1: "audit_shaped ?d" by (simp add: audit_shaped_def)
  have d2: "truthy (get_prop ?d (cu ''top_waste_zones''))
            \<and> truthy (elem0 (get_prop ?d (cu ''top_waste_zones'')))" by simp
  have d3: "to_string example_platform (get_prop ?d (cu ''company_name'')) = Inr (cu ''Acme'')"
    by simp
  have d4: "to_string example_platform (get_prop ?d (cu ''waste_score'')) = Inr (cu ''70'')"
    by (simp add: example_platform_def int_text_examples)
  have d5: "to_string example_platform (get_prop ?d (cu ''total_hours_wasted'')) = Inr (cu ''12'')"
    by (simp add: example_platform_def int_text_examples)
  have d6: "to_string example_platform
              (get_prop (elem0 (get_prop ?d (cu ''top_waste_zones''))) (cu ''name''))
            = Inr (cu ''Billing'')"
    by simp
  have n: "number_to_string example_platform (patternCount example_platform 0) = cu ''50''"
    by (simp add: patternCount_examples) (simp add: example_platform_def int_text_examples)
  have t: "audit_text (cu ''Acme'') (cu ''70'') (cu ''12'') (cu ''operations'') (cu ''50'') =
       cu ''I see you just completed an intelligence audit for Acme.'' @ [10, 10]
       @ cu ''Your waste score is 70/100, with 12 hours lost monthly.'' @ [10, 10]
       @ cu ''Top waste zone: operations'' @ [10, 10]
       @ cu ''I've analyzed 50 similar businesses. Want to see what worked for them?''"
    by (simp add: audit_text_def)
  from missing_zone_fallback [OF c1 c3 c4 c5, of 0] c2
  have "generateGreeting example_platform 0 ?c =
      Inr (audit_text (cu ''Acme'') (cu ''70'') (cu ''12'') (cu ''operations'')
             (number_to_string example_platform (patternCount example_platform 0)))"
    by blast
  moreover from missing_zone_fallback [OF d1 d3 d4 d5, of 0] d2
  have "generateGreeting example_platform 0 ?d =
      (case to_string example_platform
              (get_prop (elem0 (get_prop ?d (cu ''top_waste_zones''))) (cu ''name'')) of
         Inl e \<Rightarrow> Inl e
       | Inr z \<Rightarrow> Inr (audit_text (cu ''Acme'') (cu ''70'') (cu ''12'') z
             (number_to_string example_platform (patternCount example_platform 0))))"
    by blast
  ultimately show ?thesis
    unfolding d6 n using t by (simp del: cu_Cons cu_Nil)
qed

text \<open>
  C10, as stated, fails where the first zone is an object without a name: the
  greeting names the zone \<open>undefined\<close>.
\<close>

theorem zone_without_name_counterexample:
  "generateGreeting example_platform 0 example_audit =
     Inr (cu ''I see you just completed an intelligence audit for Acme.'' @ [10, 10]
          @ cu ''Your waste score is 70/100, with 12 hours lost monthly.'' @ [10, 10]
          @ cu ''Top waste zone: undefined'' @ [10, 10]
          @ cu ''I've analyzed 50 similar businesses. Want to see what worked for them?'')"
  by (simp add: generateGreeting_def audit_greeting_def example_audit_def topZone_def
        patternCount_examples)
    (simp add: example_platform_def int_text_examples)

section \<open>Chat transport\<close>

lemma outstanding_alt: "outstanding w = requests (effects w) - settled (effects w)"
  by (simp add: outstanding_def requests_def settled_def)

lemma getSessionId_keeps:
  "getSessionId st sa w = (a, w') \<Longrightarrow>
   requests (effects w') = requests (effects w) \<and> settled (effects w') = settled (effects w)
   \<and> isWaitingForResponse w' = isWaitingForResponse w"
  by (auto simp: getSessionId_def Let_def requests_def settled_def
      split: if_splits option.splits)

lemma start_noop: "isWaitingForResponse w \<Longrightarrow> sendNuruMessage_start st sa w = w"
  by (simp add: sendNuruMessage_start_def)

lemma start_sets_flag:
  assumes "\<not> isWaitingForResponse w" and "trim (nuruInput w) \<noteq> []"
  shows "isWaitingForResponse (sendNuruMessage_start st sa w)"
proof -
  let ?w4 = "showTyping ((addMessage_user (trim (nuruInput w)) w)
               \<lparr>nuruInput := [], isWaitingForResponse := True\<rparr>)"
  obtain sid w5 where g: "getSessionId st sa ?w4 = (sid, w5)"
    by (cases "getSessionId st sa ?w4")
  from getSessionId_keeps [OF g] have "isWaitingForResponse w5"
    by (simp add: showTyping_def addMessage_user_def)
  with assms g show ?thesis by (simp add: sendNuruMessage_start_def Let_def)
qed

lemma start_flag_matches: "flag_matches w \<Longrightarrow> flag_matches (sendNuruMessage_start st sa w)"
proof (cases "isWaitingForResponse w \<or> trim (nuruInput w) = []")
  case True
  then show "flag_matches w \<Longrightarrow> ?thesis"
    by (auto simp: sendNuruMessage_start_def Let_def)
next
  case False
  assume q: "flag_matches w"
  let ?w4 = "showTyping ((addMessage_user (trim (nuruInput w)) w)
               \<lparr>nuruInput := [], isWaitingForResponse := True\<rparr>)"
  obtain sid w5 where g: "getSessionId st sa ?w4 = (sid, w5)"
    by (cases "getSessionId st sa ?w4")
  from getSessionId_keeps [OF g] q False
  have "requests (effects w5) = settled (effects w5)" "isWaitingForResponse w5"
    by (auto simp: flag_matches_def showTyping_def addMessage_user_def)
  with False g show ?thesis
    by (simp add: sendNuruMessage_start_def Let_def flag_matches_def requests_def settled_def)
qed

lemma on_catch_counts:
  "requests (effects (on_catch w)) = requests (effects w)
   \<and> settled (effects (on_catch w)) = settled (effects w)"
  by (simp add: on_catch_def Let_def requests_def settled_def hideTyping_def)

lemma on_data_counts:
  "on_data d w = Inr w' \<Longrightarrow>
   requests (effects w') = requests (effects w) \<and> settled (effects w') = settled (effects w)"
  by (auto simp: on_data_def Let_def requests_def settled_def hideTyping_def addMessage_ai_def
      split: if_splits sum.splits jsval.splits)

lemma settle_clears: "\<not> isWaitingForResponse (sendNuruMessage_settle outcome w)"
  by (simp add: sendNuruMessage_settle_def Let_def)

lemma settle_counts:
  "requests (effects (sendNuruMessage_settle outcome w)) = requests (effects w)
   \<and> settled (effects (sendNuruMessage_settle outcome w)) = Suc (settled (effects w))"
proof (cases outcome)
  case (Body d)
  show ?thesis
  proof (cases "on_data d (w\<lparr>effects := effects w @ [ChatSettled]\<rparr>)")
    case (Inl e)
    with Body show ?thesis
      using on_catch_counts [of "hideTyping (w\<lparr>effects := effects w @ [ChatSettled]\<rparr>)"]
      by (simp add: sendNuruMessage_settle_def Let_def hideTyping_def requests_def settled_def)
  next
    case (Inr w')
    with Body on_data_counts [OF Inr] show ?thesis
      by (simp add: sendNuruMessage_settle_def Let_def requests_def settled_def)
  qed
next
  case FetchRejected
  then show ?thesis
    using on_catch_counts [of "w\<lparr>effects := effects w @ [ChatSettled]\<rparr>"]
    by (simp add: sendNuruMessage_settle_def Let_def requests_def settled_def)
next
  case BodyRejected
  then show ?thesis
    using on_catch_counts [of "w\<lparr>effects := effects w @ [ChatSettled]\<rparr>"]
    by (simp add: sendNuruMessage_settle_def Let_def requests_def settled_def)
qed

lemma step_flag_matches: "flag_matches w \<Longrightarrow> flag_matches (step st sa ev w)"
proof (cases ev)
  case (Submit t)
  assume "flag_matches w"
  then have "flag_matches (w\<lparr>nuruInput := t\<rparr>)" by (simp add: flag_matches_def)
  with Submit show ?thesis by (simp add: step_def start_flag_matches)
next
  case (Settle outcome)
  assume q: "flag_matches w"
  show ?thesis
  proof (cases "outstanding w = 0")
    case True
    with Settle q show ?thesis by (simp add: step_def)
  next
    case False
    with q have "isWaitingForResponse w"
      by (auto simp: flag_matches_def outstanding_alt split: if_splits)
    with q settle_counts [of outcome w] settle_clears [of outcome w] Settle False
    show ?thesis by (simp add: step_def flag_matches_def)
  qed
qed

lemma run_flag_matches: "flag_matches w \<Longrightarrow> flag_matches (run st sa evs w)"
  by (induction evs arbitrary: w) (simp_all add: step_flag_matches)

lemma flag_matches_outstanding:
  "flag_matches w \<Longrightarrow> outstanding w = (if isWaitingForResponse w then 1 else 0)"
  by (simp add: flag_matches_def outstanding_alt)

text \<open>
  C5. While the pending flag is set, \<open>sendNuruMessage\<close> leaves the widget as it is: no
  request, no message, nothing. However the exchange ends, the flag is cleared, and the
  next submission of a text that is not blank starts a request. From page load on, under
  any sequence of submissions and ends of exchanges, at most one request is not settled,
  and one is exactly while the flag is set.
\<close>

theorem one_request_at_a_time:
  "(isWaitingForResponse w \<longrightarrow> sendNuruMessage_start st sa w = w)
   \<and> \<not> isWaitingForResponse (sendNuruMessage_settle outcome w)
   \<and> (trim t \<noteq> [] \<longrightarrow>
        isWaitingForResponse (step st sa (Submit t) (sendNuruMessage_settle outcome w)))
   \<and> (\<not> isWaitingForResponse w \<and> effects w = [] \<longrightarrow>
        outstanding (run st sa evs w) \<le> 1
        \<and> (isWaitingForResponse (run st sa evs w) \<longleftrightarrow> outstanding (run st sa evs w) = 1))"
proof -
  have "flag_matches w" if "\<not> isWaitingForResponse w" "effects w = []"
    using that by (simp add: flag_matches_def requests_def settled_def)
  moreover have "isWaitingForResponse (step st sa (Submit t) (sendNuruMessage_settle outcome w))"
    if "trim t \<noteq> []"
    using that settle_clears [of outcome w]
      start_sets_flag [of "(sendNuruMessage_settle outcome w)\<lparr>nuruInput := t\<rparr>" st sa]
    by (simp add: step_def)
  ultimately show ?thesis
    using flag_matches_outstanding [OF run_flag_matches, of w st sa evs]
      start_noop [of w st sa] settle_clears [of outcome w]
    by auto
qed

text \<open>The user submits twice before the answer arrives: the second call changes nothing.\<close>

theorem one_request_at_a_time_witness:
  "isWaitingForResponse pending_widget
   \<and> sendNuruMessage_start (cu ''2'') (cu ''b'') pending_widget = pending_widget
   \<and> \<not> isWaitingForResponse example_widget \<and> effects example_widget = []
   \<and> outstanding (run (cu ''1'') (cu ''a'') [Submit (cu ''hi''), Submit (cu ''again'')]
         example_widget) \<le> 1"
proof -
  have p: "isWaitingForResponse pending_widget" by (simp add: pending_widget_eq)
  have e: "\<not> isWaitingForResponse example_widget \<and> effects example_widget = []"
    by (simp add: example_widget_def)
  from one_request_at_a_time [of pending_widget "cu ''2''" "cu ''b''" FetchRejected "[]" "[]"]
       one_request_at_a_time [of example_widget "cu ''1''" "cu ''a''" FetchRejected "[]"
         "[Submit (cu ''hi''), Submit (cu ''again'')]"] p e
  show ?thesis by blast
qed

text \<open>
  C6, as the code has it. When the body of the response has no truthy \<open>response\<close> field
  and a truthy \<open>error\<close> field, the first typing indicator is removed, one message is
  appended, the fixed apology whatever the error says, and the error goes to the console.
\<close>

theorem error_field_apology:
  assumes "\<not> truthy (get_prop data (cu ''response''))"
    and "truthy (get_prop data (cu ''error''))"
  shows "chatMessages (sendNuruMessage_settle (Body data) w) =
           remove1 TypingIndicator (chatMessages w)
           @ [Message False
                (cu ''<p class=\"nuru-p\">Sorry, I encountered an error. Please try again.</p>'')]
         \<and> effects (sendNuruMessage_settle (Body data) w) =
             effects w
             @ [ChatSettled, ConsoleError (cu ''Backend error:'') (get_prop data (cu ''error''))]
         \<and> \<not> isWaitingForResponse (sendNuruMessage_settle (Body data) w)
         \<and> (count_list (chatMessages w) TypingIndicator \<le> 1 \<longrightarrow>
              TypingIndicator \<notin> set (chatMessages (sendNuruMessage_settle (Body data) w)))"
proof -
  have nn: "\<not> nullish data" using assms(2) by (cases data) auto
  have ne: "apology_error \<noteq> []" by (simp add: apology_error_def)
  have cnt: "count_list xs TypingIndicator \<le> 1
      \<Longrightarrow> TypingIndicator \<notin> set (remove1 TypingIndicator xs)" for xs
    by (induction xs) (auto split: if_splits simp: count_list_0_iff)
  show ?thesis
    using assms nn ne cnt [of "chatMessages w"]
    by (simp add: sendNuruMessage_settle_def on_data_def addMessage_ai_def hideTyping_def
        Let_def apology_error_html)
qed

theorem error_field_apology_witness:
  "chatMessages
     (sendNuruMessage_settle (Body (JObj [(cu ''error'', JStr (cu ''x''))])) pending_widget)
     = [Message True (cu ''hi''),
        Message False
          (cu ''<p class=\"nuru-p\">Sorry, I encountered an error. Please try again.</p>'')]"
proof -
  have h1: "\<not> truthy (get_prop (JObj [(cu ''error'', JStr (cu ''x''))]) (cu ''response''))"
    by simp
  have h2: "truthy (get_prop (JObj [(cu ''error'', JStr (cu ''x''))]) (cu ''error''))"
    by simp
  have "chatMessages pending_widget = [Message True (cu ''hi''), TypingIndicator]"
    by (simp add: pending_widget_eq)
  with error_field_apology [OF h1 h2, of pending_widget] show ?thesis by simp
qed

text \<open>
  C6, as stated, fails: a body whose \<open>error\<close> field is the empty string has an
  error field and no reply field, and no apology is appended.
\<close>

theorem empty_error_no_apology_counterexample:
  "chatMessages
     (sendNuruMessage_settle (Body (JObj [(cu ''error'', JStr [])])) pending_widget)
     = [Message True (cu ''hi'')]"
  by (simp add: pending_widget_eq sendNuruMessage_settle_def on_data_def hideTyping_def Let_def)

section \<open>The Markdown renderer: the final wrap and the lists\<close>

text \<open>
  C2, as stated, fails: the text \<open>---\<close> renders to the divider alone, with no
  paragraph around it.
\<close>

theorem divider_not_wrapped_counterexample:
  "parseMarkdown (cu ''---'') = cu ''<hr class=\"nuru-divider\">''"
  by (simp add: md_eval)

text \<open>
  C8 at the text \<open>- a\<close>, line feed, \<open>1. b\<close>: the list wrapper takes the line feed with
  it, its closing tag lands at the start of the numbered line, and that line stays as it
  is, no list item. On its own the same numbered line becomes a list item with no list
  around it, and two bullet lines share one list.
\<close>

theorem numbered_after_bullet_not_converted:
  "parseMarkdown (cu ''- a'' @ [10] @ cu ''1. b'')
     = cu ''<ul class=\"nuru-list\"><li>a</li><br></ul>1. b''
   \<and> parseMarkdown (cu ''1. b'') = cu ''<p class=\"nuru-p\"><li>b</li></p>''
   \<and> parseMarkdown (cu ''- a'' @ [10] @ cu ''- b'')
     = cu ''<ul class=\"nuru-list\"><li>a</li><br><li>b</li></ul>''"
  by (simp add: md_eval)

text \<open>Bold and italic in one line, each rendered once.\<close>

lemma bold_and_italic_example:
  "parseMarkdown (cu ''**bold** and *italic*'')
     = cu ''<p class=\"nuru-p\"><strong>bold</strong> and <em>italic</em></p>''"
  by (simp add: md_eval)

section \<open>The shape of a match\<close>


lemma re_lit_Some:
  "re_lit pat prev s = Some (mt, g) \<Longrightarrow> mt = pat \<and> g = [] \<and> prefix pat s"
  by (auto simp: re_lit_def split: if_splits)

lemma re_line_Some:
  assumes "re_line pre prev s = Some (mt, g)"
  shows "\<exists>n r. pre s = Some n \<and> bol prev \<and> g \<noteq> [] \<and> mt = take n s @ g \<and> s = take n s @ g @ r
          \<and> (r = [] \<or> isLT (hd r)) \<and> (\<forall>c\<in>set g. \<not> isLT c)"
proof -
  from assms obtain n where n: "pre s = Some n" "bol prev"
    and g: "g = takeWhile (\<lambda>c. \<not> isLT c) (drop n s)" "g \<noteq> []" "mt = take n s @ g"
    by (auto simp: re_line_def Let_def split: if_splits option.splits)
  let ?r = "dropWhile (\<lambda>c. \<not> isLT c) (drop n s)"
  have "s = take n s @ g @ ?r" using g(1) by simp
  moreover have "?r = [] \<or> isLT (hd ?r)"
    using hd_dropWhile[of "\<lambda>c. \<not> isLT c" "drop n s"] by auto
  moreover have "\<forall>c\<in>set g. \<not> isLT c" using g(1) by (auto dest: set_takeWhileD)
  ultimately show ?thesis using n g by blast
qed

lemma lazy_dots_then_Some:
  "lazy_dots_then d x = Some k \<Longrightarrow> 0 < k \<and> k \<le> length x \<and> prefix d (drop k x)"
proof (induction x arbitrary: k)
  case Nil then show ?case by simp
next
  case (Cons c cs)
  then show ?case by (auto split: if_splits)
qed

lemma re_bold_Some:
  assumes "re_bold prev s = Some (mt, g)"
  shows "\<exists>r. g \<noteq> [] \<and> mt = cu ''**'' @ g @ cu ''**'' \<and> s = mt @ r"
proof -
  from assms obtain k where p: "prefix (cu ''**'') s"
    and k: "lazy_dots_then (cu ''**'') (drop 2 s) = Some k"
    and m: "mt = take (k + 4) s" "g = take k (drop 2 s)"
    by (auto simp: re_bold_def split: if_splits option.splits)
  from p obtain x where s: "s = cu ''**'' @ x" by (auto simp: prefix_def)
  then have x: "drop 2 s = x" by simp
  from lazy_dots_then_Some[OF k] x obtain r where r: "0 < k" "k \<le> length x" "drop k x = cu ''**'' @ r"
    by (auto simp: prefix_def)
  define g0 where "g0 = take k x"
  have xs: "x = g0 @ cu ''**'' @ r" and len: "length g0 = k"
    using r unfolding g0_def by (metis append_take_drop_id, simp)
  have "g = g0" using m(2) x g0_def by simp
  moreover have "mt = cu ''**'' @ g0 @ cu ''**''"
  proof -
    have e: "s = (cu ''**'' @ g0 @ cu ''**'') @ r" using s xs by simp
    have l: "length (cu ''**'' @ g0 @ cu ''**'') = k + 4" using len by simp
    have "take (length y) (y @ r) = y" for y :: jstring by simp
    with e l m(1) show ?thesis by metis
  qed
  moreover have "g0 \<noteq> []" using len r(1) by auto
  ultimately show ?thesis using s xs by auto
qed

lemma italic_body_Some:
  "italic_body x = Some k \<Longrightarrow> 0 < k \<and> k \<le> length x \<and> (\<exists>r. drop k x = 42 # r)"
proof (induction x arbitrary: k)
  case Nil then show ?case by simp
next
  case (Cons c cs)
  let ?close = "c \<noteq> 42 \<and> (case cs of [] \<Rightarrow> False
                 | d # ds \<Rightarrow> d = 42 \<and> (case ds of [] \<Rightarrow> True | e # _ \<Rightarrow> e \<noteq> 42))"
  from Cons.prems have nlt: "\<not> isLT c" by (simp split: if_splits)
  show ?case
  proof (cases ?close)
    case True
    with Cons.prems nlt have "k = 1" by simp
    moreover from True obtain ds where "cs = 42 # ds" by (cases cs) auto
    ultimately show ?thesis by simp
  next
    case False
    with Cons.prems nlt obtain k' where k': "italic_body cs = Some k'" "k = Suc k'"
      by (cases "italic_body cs") (simp_all del: italic_body.simps add: italic_body.simps(2)[of c cs])
    from Cons.IH[OF k'(1)] k'(2) show ?thesis by simp
  qed
qed

lemma re_italic_Some:
  assumes "re_italic prev s = Some (mt, g)"
  shows "\<exists>r. g \<noteq> [] \<and> mt = 42 # g @ [42] \<and> s = mt @ r"
proof -
  from assms obtain x k where s: "s = 42 # x"
    and k: "italic_body x = Some k"
    and m: "mt = take (k + 2) s" "g = take k x"
    by (auto simp: re_italic_def split: if_splits option.splits list.splits)
  from italic_body_Some[OF k] obtain r where r: "0 < k" "k \<le> length x" "drop k x = 42 # r"
    by auto
  define g0 where "g0 = take k x"
  have xs: "x = g0 @ 42 # r" and len: "length g0 = k"
    using r unfolding g0_def by (metis append_take_drop_id, simp)
  have e: "s = (42 # g0 @ [42]) @ r" using s xs by simp
  have l: "length (42 # g0 @ [42]) = k + 2" using len by simp
  have "take (length y) (y @ r) = y" for y :: jstring by simp
  with e l m(1) have "mt = 42 # g0 @ [42]" by metis
  moreover have "g = g0" using m(2) g0_def by simp
  moreover have "g0 \<noteq> []" using len r(1) by auto
  ultimately show ?thesis using e by auto
qed

lemma greedy_dots_then_Some:
  "greedy_dots_then d x = Some k \<Longrightarrow> k \<le> length x \<and> prefix d (drop k x)"
proof (induction x arbitrary: k)
  case Nil then show ?case by (auto split: if_splits)
next
  case (Cons c cs)
  then show ?case by (auto split: if_splits option.splits)
qed

lemma li_item_Some:
  assumes "li_item s = Some n"
  shows "0 < n \<and> n \<le> length s \<and> hd s = 60 \<and> (last (take n s) = 62 \<or> last (take n s) = 10)"
proof -
  from assms obtain k where p: "prefix (cu ''<li>'') s"
    and k: "greedy_dots_then (cu ''</li>'') (drop 4 s) = Some k"
    and n: "n = (if prefix [10] (drop (k + 9) s) then k + 10 else k + 9)"
    by (auto simp: li_item_def split: if_splits option.splits)
  from p obtain x where s: "s = cu ''<li>'' @ x" by (auto simp: prefix_def)
  then have x: "drop 4 s = x" by simp
  from greedy_dots_then_Some[OF k] x obtain r where r: "k \<le> length x" "drop k x = cu ''</li>'' @ r"
    by (auto simp: prefix_def)
  define g0 where "g0 = take k x"
  have xs: "x = g0 @ cu ''</li>'' @ r" and len: "length g0 = k"
    using r unfolding g0_def by (metis append_take_drop_id, simp)
  define y where "y = cu ''<li>'' @ g0 @ cu ''</li>''"
  have e: "s = y @ r" using s xs y_def by simp
  have l: "length y = k + 9" using len y_def by simp
  have ly: "last y = 62" unfolding y_def by simp
  have yne: "y \<noteq> []" unfolding y_def by simp
  have d: "drop (k + 9) s = r" using e l by simp
  show ?thesis
  proof (cases "prefix [10] r")
    case True
    then obtain r' where r': "r = 10 # r'" by (auto simp: prefix_def)
    have "s = (y @ [10]) @ r'" using e r' by simp
    moreover have "length (y @ [10]) = n" using n d True l by simp
    ultimately have "take n s = y @ [10]" by (metis append_eq_conv_conj)
    moreover have "n \<le> length s" using \<open>s = (y @ [10]) @ r'\<close> \<open>length (y @ [10]) = n\<close> by auto
    ultimately show ?thesis using n d True s by simp
  next
    case False
    have "length y = n" using n d False l by simp
    with e have "take n s = y" by (metis append_eq_conv_conj)
    moreover have "n \<le> length s" using e \<open>length y = n\<close> by auto
    ultimately show ?thesis using n d False s ly by simp
  qed
qed

lemma li_run_last:
  "0 < li_run s \<Longrightarrow> li_run s \<le> length s \<and> hd s = 60 \<and>
     (last (take (li_run s) s) = 62 \<or> last (take (li_run s) s) = 10)"
proof (induction s rule: li_run.induct)
  case (1 s)
  show ?case
  proof (cases "li_item s")
    case None
    with "1.prems" show ?thesis by (simp add: li_run.simps[of s])
  next
    case (Some n)
    note it = li_item_Some[OF Some]
    show ?thesis
    proof (cases "li_run (drop n s) = 0")
      case True
      with Some it show ?thesis by (simp add: li_run.simps[of s])
    next
      case False
      with "1.IH"[OF Some] have ih: "li_run (drop n s) \<le> length (drop n s)"
        "last (take (li_run (drop n s)) (drop n s)) = 62 \<or> last (take (li_run (drop n s)) (drop n s)) = 10"
        by auto
      have r: "li_run s = n + li_run (drop n s)" using Some by (simp add: li_run.simps[of s])
      have "take (n + li_run (drop n s)) s = take n s @ take (li_run (drop n s)) (drop n s)"
        by (simp add: take_add)
      moreover have "take (li_run (drop n s)) (drop n s) \<noteq> []" using False ih(1) by auto
      ultimately have "last (take (li_run s) s) = last (take (li_run (drop n s)) (drop n s))"
        using r by simp
      with ih r it show ?thesis by auto
    qed
  qed
qed

lemma re_ul_Some:
  assumes "re_ul prev s = Some (mt, g)"
  shows "mt \<noteq> [] \<and> prefix mt s \<and> hd s = 60 \<and> (last mt = 62 \<or> last mt = 10)"
proof -
  from assms have n: "0 < li_run s" and m: "mt = take (li_run s) s"
    by (auto simp: re_ul_def split: if_splits)
  from li_run_last[OF n] m n show ?thesis by (auto simp: take_is_prefix)
qed

lemma re_hr_Some:
  assumes "re_hr prev s = Some (mt, g)"
  shows "mt \<noteq> [] \<and> prefix mt s \<and> set mt \<subseteq> {45} \<and> bol prev \<and> 3 \<le> length mt
         \<and> (drop (length mt) s = [] \<or> isLT (hd (drop (length mt) s)))"
proof -
  from assms have m: "mt = takeWhile (\<lambda>c. c = 45) s" and l: "3 \<le> length mt" and b: "bol prev"
    and r: "(case drop (length mt) s of [] \<Rightarrow> True | c # _ \<Rightarrow> isLT c)"
    by (auto simp: re_hr_def Let_def split: if_splits)
  have "prefix mt s" unfolding m by (metis takeWhile_dropWhile_id prefixI)
  moreover have "set mt \<subseteq> {45}" unfolding m by (auto dest: set_takeWhileD)
  moreover have "mt \<noteq> []" using l by auto
  moreover have "drop (length mt) s = [] \<or> isLT (hd (drop (length mt) s))"
    using r by (cases "drop (length mt) s") auto
  ultimately show ?thesis using l b by blast
qed

section \<open>No rule writes a script tag\<close>

lemma after_lt_append: "after_lt cs \<Longrightarrow> after_lt (cs @ b)"
  by (auto simp: after_lt_def split: list.splits)

lemma tagsafe_append: "tagsafe a \<Longrightarrow> tagsafe b \<Longrightarrow> tagsafe (a @ b)"
  by (induction a) (auto simp: after_lt_append)

lemma tagsafe_suffix: "tagsafe (a @ b) \<Longrightarrow> tagsafe b"
  by (induction a) auto

lemma tagsafe_drop: "tagsafe s \<Longrightarrow> tagsafe (drop n s)"
  using tagsafe_suffix[of "take n s" "drop n s"] by simp

lemma after_lt_prefix_hd:
  "after_lt (a @ b) \<Longrightarrow> b = [] \<or> \<not> tag_char (hd b) \<Longrightarrow> after_lt a"
  by (cases a; cases "tl a"; cases b)
    (auto simp: after_lt_def tag_char_def tag_third_def split: list.splits)

lemma tagsafe_prefix_hd:
  "tagsafe (a @ b) \<Longrightarrow> b = [] \<or> \<not> tag_char (hd b) \<Longrightarrow> tagsafe a"
  by (induction a) (auto dest: after_lt_prefix_hd)

lemma after_lt_prefix_last:
  "after_lt (a @ b) \<Longrightarrow> a \<noteq> [] \<Longrightarrow> last a \<noteq> 115 \<Longrightarrow> last a \<noteq> 104 \<Longrightarrow> after_lt a"
  by (cases a; cases "tl a") (auto simp: after_lt_def split: list.splits)

lemma tagsafe_prefix_last:
  "tagsafe (a @ b) \<Longrightarrow> a \<noteq> [] \<Longrightarrow> last a \<noteq> 60 \<Longrightarrow> last a \<noteq> 115 \<Longrightarrow> last a \<noteq> 104 \<Longrightarrow>
   tagsafe a"
proof (induction a)
  case Nil then show ?case by simp
next
  case (Cons c a)
  show ?case
  proof (cases "a = []")
    case True
    with Cons.prems show ?thesis by simp
  next
    case False
    with Cons.prems have "tagsafe a" using Cons.IH by simp
    moreover have "c = 60 \<longrightarrow> after_lt a"
      using Cons.prems False after_lt_prefix_last[of a b] by simp
    ultimately show ?thesis by simp
  qed
qed

lemma tagsafe_no_lt: "60 \<notin> set s \<Longrightarrow> tagsafe s"
  by (induction s) auto

lemma replace_all_copy:
  "starts_off_tags m \<Longrightarrow> tag_second c \<Longrightarrow>
   replace_all m f prev (c # cs) = c # replace_all m f (Some c) cs"
  by (simp add: starts_off_tags_def)

lemma replace_all_copy_third:
  "starts_off_tags m \<Longrightarrow> d = 115 \<or> d = 104 \<Longrightarrow> tag_third d c \<Longrightarrow>
   replace_all m f (Some d) (c # cs) = c # replace_all m f (Some c) cs"
  by (simp add: starts_off_tags_def)

lemma replace_all_after_lt:
  assumes "starts_off_tags m" and "after_lt cs"
  shows "after_lt (replace_all m f prev cs)"
proof -
  from assms(2) obtain d ds where cs: "cs = d # ds" and d: "tag_second d"
    and t: "d = 115 \<or> d = 104 \<longrightarrow> (\<exists>e es. ds = e # es \<and> tag_third d e)"
    by (cases cs; cases "tl cs") (auto simp: after_lt_def split: list.splits)
  have 1: "replace_all m f prev cs = d # replace_all m f (Some d) ds"
    using replace_all_copy [OF assms(1) d] cs by simp
  show ?thesis
  proof (cases "d = 115 \<or> d = 104")
    case True
    with t obtain e es where e: "ds = e # es" "tag_third d e" by auto
    have "replace_all m f (Some d) (e # es) = e # replace_all m f (Some e) es"
      using assms(1) True e(2) by (rule replace_all_copy_third)
    then have "replace_all m f prev cs = d # e # replace_all m f (Some e) es"
      using 1 e(1) by (simp del: replace_all.simps)
    then show ?thesis using d e(2) by (auto simp: after_lt_def)
  next
    case False
    with 1 d show ?thesis by (simp add: after_lt_def)
  qed
qed

lemma replace_all_tagsafe:
  "starts_off_tags m \<Longrightarrow> keeps_tagsafe m f \<Longrightarrow> tagsafe s \<Longrightarrow> tagsafe (replace_all m f prev s)"
proof (induction m f prev s rule: replace_all.induct)
  case (1 m f prev)
  show ?case
  proof (cases "m prev []")
    case None
    then show ?thesis by simp
  next
    case (Some p)
    obtain mt g where p: "p = (mt, g)" by (cases p)
    have "tagsafe []" by simp
    with "1.prems"(2) Some p have "tagsafe (f mt g)"
      unfolding keeps_tagsafe_def by blast
    with Some p show ?thesis by simp
  qed
next
  case (2 m f prev c cs)
  show ?case
  proof (cases "m prev (c # cs)")
    case None
    have ts: "tagsafe cs" using "2.prems"(3) by simp
    have ih: "tagsafe (replace_all m f (Some c) cs)"
      using "2.IH"(1)[OF None "2.prems"(1,2) ts] .
    have "c = 60 \<longrightarrow> after_lt (replace_all m f (Some c) cs)"
      using "2.prems"(3) replace_all_after_lt[OF "2.prems"(1)] by simp
    with ih None show ?thesis by simp
  next
    case (Some p)
    obtain mt g where p: "p = (mt, g)" by (cases p)
    from "2.prems"(2,3) Some p have good: "mt \<noteq> []" "prefix mt (c # cs)" "tagsafe (f mt g)"
      unfolding keeps_tagsafe_def by blast+
    have "tagsafe (drop (length mt) (c # cs))" using "2.prems"(3) by (rule tagsafe_drop)
    then have "tagsafe (replace_all m f (Some (last mt)) (drop (length mt) (c # cs)))"
      using "2.IH"(3)[OF Some p[symmetric] good(1) "2.prems"(1,2)] by simp
    with good Some p show ?thesis by (simp add: tagsafe_append)
  qed
qed

lemma replace_char:
  "replace_all (re_lit [c]) (const_rep r) prev s = concat (map (\<lambda>x. if x = c then cu r else [x]) s)"
  by (induction s arbitrary: prev) (auto simp: re_lit_def const_rep_def)

lemma escape_html_alt:
  "escape_html s =
     concat (map (\<lambda>x. if x = 62 then cu ''&gt;'' else [x])
       (concat (map (\<lambda>x. if x = 60 then cu ''&lt;'' else [x])
         (concat (map (\<lambda>x. if x = 38 then cu ''&amp;'' else [x]) s)))))"
  by (simp add: escape_html_def replace_char del: replace_all.simps)

lemma escape_html_esc: "escape_html s = concat (map esc s)"
  unfolding escape_html_alt by (induction s) (auto simp: esc_def)

lemma escape_html_no_angle: "60 \<notin> set (escape_html s) \<and> 62 \<notin> set (escape_html s)"
  by (auto simp: escape_html_esc esc_def split: if_splits)

lemma isLT_not_tag: "isLT c \<Longrightarrow> \<not> tag_char c"
  by (auto simp: isLT_def tag_char_def tag_second_def)

lemma re_line_starts:
  "(\<And>c cs n. pre (c # cs) = Some n \<Longrightarrow> \<not> tag_second c) \<Longrightarrow> starts_off_tags (re_line pre)"
  by (auto simp: starts_off_tags_def re_line_def bol_def isLT_def Let_def split: option.splits)

lemma pre_lit_start: "pre_lit (p # ps) (c # cs) = Some n \<Longrightarrow> c = p"
  by (auto simp: pre_lit_def split: if_splits)

lemma pre_bullet_start: "pre_bullet (c # cs) = Some n \<Longrightarrow> c = 45 \<or> c = 8226"
  by (auto simp: pre_bullet_def split: if_splits list.splits)

lemma pre_numbered_start: "pre_numbered (c # cs) = Some n \<Longrightarrow> isDigit c"
  by (auto simp: pre_numbered_def Let_def split: if_splits)

lemma re_bold_start: "re_bold prev (c # cs) = Some x \<Longrightarrow> c = 42"
  by (auto simp: re_bold_def split: if_splits)

lemma re_italic_start: "re_italic prev (c # cs) = Some x \<Longrightarrow> c = 42"
  by (auto simp: re_italic_def split: if_splits)

lemma re_ul_start:
  assumes "re_ul prev (c # cs) = Some x"
  shows "c = 60"
proof -
  obtain mt g where x: "x = (mt, g)" by (cases x)
  from re_ul_Some[of prev "c # cs" mt g] assms x show ?thesis by simp
qed

lemma re_hr_start:
  assumes "re_hr prev (c # cs) = Some x"
  shows "c = 45"
proof -
  obtain mt g where x: "x = (mt, g)" by (cases x)
  from re_hr_Some[of prev "c # cs" mt g] assms x
  have "mt \<noteq> []" "prefix mt (c # cs)" "set mt \<subseteq> {45}" by auto
  then show ?thesis by (cases mt) (auto simp: prefix_def)
qed

lemma re_lit_start: "re_lit (p # ps) prev (c # cs) = Some x \<Longrightarrow> c = p"
  by (auto simp: re_lit_def split: if_splits)

lemma starts_off_tagsI:
  assumes "\<And>prev c cs x. m prev (c # cs) = Some x \<Longrightarrow> \<not> tag_char c"
  shows "starts_off_tags m"
proof -
  have "m prev (c # cs) = None" if "tag_char c" for prev c cs
    using assms [of prev c cs] that by (cases "m prev (c # cs)") auto
  then show ?thesis
    unfolding starts_off_tags_def by (auto simp: tag_char_def tag_third_def)
qed

lemma sot_h4: "starts_off_tags (re_line (pre_lit (cu ''### '')))"
  by (rule re_line_starts) (auto dest!: pre_lit_start simp: tag_second_def)

lemma sot_h3: "starts_off_tags (re_line (pre_lit (cu ''## '')))"
  by (rule re_line_starts) (auto dest!: pre_lit_start simp: tag_second_def)

lemma sot_bullet: "starts_off_tags (re_line pre_bullet)"
  by (rule re_line_starts) (auto dest!: pre_bullet_start simp: tag_second_def)

lemma sot_numbered: "starts_off_tags (re_line pre_numbered)"
  by (rule re_line_starts) (auto dest!: pre_numbered_start simp: tag_second_def isDigit_def)

lemma sot_bold: "starts_off_tags re_bold"
  by (rule starts_off_tagsI) (auto dest!: re_bold_start simp: tag_char_def tag_second_def)

lemma sot_italic: "starts_off_tags re_italic"
  by (rule starts_off_tagsI) (auto dest!: re_italic_start simp: tag_char_def tag_second_def)

lemma sot_ul: "starts_off_tags re_ul"
  by (rule starts_off_tagsI) (auto dest!: re_ul_start simp: tag_char_def tag_second_def)

lemma sot_hr: "starts_off_tags re_hr"
  by (rule starts_off_tagsI) (auto dest!: re_hr_start simp: tag_char_def tag_second_def)

lemma sot_lit: "\<not> tag_char p \<Longrightarrow> starts_off_tags (re_lit (p # ps))"
  by (rule starts_off_tagsI) (auto dest!: re_lit_start)

lemma kt_line:
  assumes "tagsafe (cu l)" and "tagsafe (cu r)"
  shows "keeps_tagsafe (re_line pre) (tag_wrap l r)"
  unfolding keeps_tagsafe_def
proof (intro allI impI, elim conjE)
  fix prev s mt g
  assume m: "re_line pre prev s = Some (mt, g)" and ts: "tagsafe s"
  from re_line_Some[OF m] obtain n r' where
    g: "g \<noteq> []" "mt = take n s @ g" "s = take n s @ g @ r'" "r' = [] \<or> isLT (hd r')"
    by blast
  from ts g(3) have "tagsafe (g @ r')" by (metis tagsafe_suffix)
  with g(4) have "tagsafe g" using tagsafe_prefix_hd isLT_not_tag by blast
  with assms have "tagsafe (tag_wrap l r mt g)" by (simp add: tag_wrap_def tagsafe_append)
  moreover have "prefix mt s" using g(2,3) by (metis append.assoc prefixI)
  ultimately show "mt \<noteq> [] \<and> prefix mt s \<and> tagsafe (tag_wrap l r mt g)" using g by simp
qed

lemma kt_bold: "keeps_tagsafe re_bold (tag_wrap ''<strong>'' ''</strong>'')"
  unfolding keeps_tagsafe_def
proof (intro allI impI, elim conjE)
  fix prev s mt g
  assume m: "re_bold prev s = Some (mt, g)" and ts: "tagsafe s"
  from re_bold_Some[OF m] obtain r where g: "g \<noteq> []" "mt = cu ''**'' @ g @ cu ''**''" "s = mt @ r"
    by blast
  have "s = cu ''**'' @ (g @ cu ''**'' @ r)" using g by simp
  with ts have "tagsafe (g @ cu ''**'' @ r)" by (metis tagsafe_suffix)
  then have "tagsafe g" by (rule tagsafe_prefix_hd) (simp add: tag_char_def tag_second_def)
  then have "tagsafe (tag_wrap ''<strong>'' ''</strong>'' mt g)"
    by (simp add: tag_wrap_def tagsafe_append after_lt_def tag_second_def tag_third_def)
  with g show "mt \<noteq> [] \<and> prefix mt s \<and> tagsafe (tag_wrap ''<strong>'' ''</strong>'' mt g)" by simp
qed

lemma kt_italic: "keeps_tagsafe re_italic (tag_wrap ''<em>'' ''</em>'')"
  unfolding keeps_tagsafe_def
proof (intro allI impI, elim conjE)
  fix prev s mt g
  assume m: "re_italic prev s = Some (mt, g)" and ts: "tagsafe s"
  from re_italic_Some[OF m] obtain r where g: "g \<noteq> []" "mt = 42 # g @ [42]" "s = mt @ r"
    by blast
  have "s = [42] @ (g @ 42 # r)" using g by simp
  with ts have "tagsafe (g @ 42 # r)" by (metis tagsafe_suffix)
  then have "tagsafe g" by (rule tagsafe_prefix_hd) (simp add: tag_char_def tag_second_def)
  then have "tagsafe (tag_wrap ''<em>'' ''</em>'' mt g)"
    by (simp add: tag_wrap_def tagsafe_append after_lt_def tag_second_def tag_third_def)
  with g show "mt \<noteq> [] \<and> prefix mt s \<and> tagsafe (tag_wrap ''<em>'' ''</em>'' mt g)" by simp
qed

lemma kt_ul: "keeps_tagsafe re_ul ul_rep"
  unfolding keeps_tagsafe_def
proof (intro allI impI, elim conjE)
  fix prev s mt g
  assume m: "re_ul prev s = Some (mt, g)" and ts: "tagsafe s"
  from re_ul_Some[OF m] have g: "mt \<noteq> []" "prefix mt s" "last mt = 62 \<or> last mt = 10" by auto
  from g(2) obtain r where "s = mt @ r" by (auto simp: prefix_def)
  with ts g have "tagsafe mt" using tagsafe_prefix_last[of mt r] by auto
  then have "tagsafe (ul_rep mt g)"
    by (simp add: ul_rep_def tagsafe_append after_lt_def tag_second_def tag_third_def)
  with g show "mt \<noteq> [] \<and> prefix mt s \<and> tagsafe (ul_rep mt g)" by simp
qed

lemma kt_hr: "keeps_tagsafe re_hr (const_rep ''<hr class=\"nuru-divider\">'')"
  unfolding keeps_tagsafe_def
  by (auto dest!: re_hr_Some simp: const_rep_def after_lt_def tag_second_def tag_third_def)

lemma kt_lit: "pat \<noteq> [] \<Longrightarrow> tagsafe (cu r) \<Longrightarrow> keeps_tagsafe (re_lit pat) (const_rep r)"
  unfolding keeps_tagsafe_def
  by (auto dest!: re_lit_Some simp: const_rep_def)

lemma tagsafe_render_body: "tagsafe (render_body text)"
proof -
  have t0: "tagsafe (escape_html text)" using escape_html_no_angle by (simp add: tagsafe_no_lt)
  have t1: "tagsafe (h4_pass (escape_html text))"
    unfolding h4_pass_def using t0
    by (intro replace_all_tagsafe sot_h4 kt_line) (simp_all add: after_lt_def tag_second_def tag_third_def)
  have t2: "tagsafe (h3_pass (h4_pass (escape_html text)))"
    unfolding h3_pass_def using t1
    by (intro replace_all_tagsafe sot_h3 kt_line) (simp_all add: after_lt_def tag_second_def tag_third_def)
  have t3: "tagsafe (bold_pass (h3_pass (h4_pass (escape_html text))))"
    unfolding bold_pass_def using t2
    by (intro replace_all_tagsafe sot_bold kt_bold)
  have t4: "tagsafe (italic_pass (bold_pass (h3_pass (h4_pass (escape_html text)))))"
    unfolding italic_pass_def using t3
    by (intro replace_all_tagsafe sot_italic kt_italic)
  have t5: "tagsafe (bullet_pass (italic_pass (bold_pass (h3_pass (h4_pass (escape_html text))))))"
    unfolding bullet_pass_def using t4
    by (intro replace_all_tagsafe sot_bullet kt_line) (simp_all add: after_lt_def tag_second_def tag_third_def)
  have t6: "tagsafe (ul_pass (bullet_pass (italic_pass (bold_pass (h3_pass (h4_pass (escape_html text)))))))"
    unfolding ul_pass_def using t5
    by (intro replace_all_tagsafe sot_ul kt_ul)
  have t7: "tagsafe (numbered_pass (ul_pass (bullet_pass (italic_pass (bold_pass (h3_pass (h4_pass (escape_html text))))))))"
    unfolding numbered_pass_def using t6
    by (intro replace_all_tagsafe sot_numbered kt_line) (simp_all add: after_lt_def tag_second_def tag_third_def)
  have t8: "tagsafe (hr_pass (numbered_pass (ul_pass (bullet_pass (italic_pass (bold_pass (h3_pass (h4_pass (escape_html text)))))))))"
    unfolding hr_pass_def using t7
    by (intro replace_all_tagsafe sot_hr kt_hr)
  have t9: "tagsafe (para_pass (hr_pass (numbered_pass (ul_pass (bullet_pass (italic_pass (bold_pass (h3_pass (h4_pass (escape_html text))))))))))"
    unfolding para_pass_def using t8
    by (intro replace_all_tagsafe sot_lit kt_lit) (simp_all add: after_lt_def tag_second_def tag_third_def tag_char_def)
  have "tagsafe (br_pass (para_pass (hr_pass (numbered_pass (ul_pass (bullet_pass (italic_pass (bold_pass (h3_pass (h4_pass (escape_html text)))))))))))"
    unfolding br_pass_def using t9
    by (intro replace_all_tagsafe sot_lit kt_lit) (simp_all add: after_lt_def tag_second_def tag_third_def tag_char_def)
  then show ?thesis by (simp add: render_body_def markup_passes_def)
qed



section \<open>The escaped text survives the later rules\<close>

































section \<open>A divider on the first line\<close>

lemma skips_h: "skips_rule (re_line (pre_lit (35 # ps)))"
  by (auto simp: skips_rule_def re_line_def pre_lit_def isLT_def split: option.splits)

lemma skips_bullet: "skips_rule (re_line pre_bullet)"
  by (auto simp: skips_rule_def re_line_def pre_bullet_def bol_def isLT_def
      split: option.splits list.splits if_splits)

lemma skips_numbered: "skips_rule (re_line pre_numbered)"
  by (auto simp: skips_rule_def re_line_def pre_numbered_def isDigit_def isLT_def Let_def
      split: option.splits)

lemma skips_bold: "skips_rule re_bold"
  by (auto simp: skips_rule_def re_bold_def isLT_def)

lemma skips_italic: "skips_rule re_italic"
  by (auto simp: skips_rule_def re_italic_def isLT_def)

lemma li_run_not_lt: "\<not> prefix (cu ''<li>'') s \<Longrightarrow> li_run s = 0"
  by (simp add: li_run.simps[of s] li_item_def)

lemma skips_ul: "skips_rule re_ul"
  by (auto simp: skips_rule_def re_ul_def li_run_not_lt isLT_def)

lemma skip_hyphens_behind:
  "skips_rule m \<Longrightarrow>
   replace_all m f (Some 45) (replicate k 45 @ r) = replicate k 45 @ replace_all m f (Some 45) r"
  by (induction k) (auto simp: skips_rule_def)

lemma skip_hyphens:
  assumes "skips_rule m" and "2 \<le> n"
  shows "replace_all m f prev (replicate n 45 @ r) = replicate n 45 @ replace_all m f (Some 45) r"
proof -
  from assms(2) obtain k where n: "n = Suc (Suc k)" by (metis Suc_le_D numeral_2_eq_2 Suc_le_mono)
  have "m prev (45 # 45 # replicate k 45 @ r) = None"
    using assms(1) by (auto simp: skips_rule_def)
  then have "replace_all m f prev (replicate n 45 @ r)
      = 45 # replace_all m f (Some 45) (replicate (Suc k) 45 @ r)"
    unfolding n by simp
  also have "\<dots> = 45 # replicate (Suc k) 45 @ replace_all m f (Some 45) r"
    by (simp only: skip_hyphens_behind[OF assms(1)])
  finally show ?thesis unfolding n by simp
qed

lemma skip_line_end:
  assumes "skips_rule m" and "r = [] \<or> isLT (hd r)"
  shows "replace_all m f p r = [] \<or> isLT (hd (replace_all m f p r))"
proof (cases r)
  case Nil
  with assms(1) show ?thesis by (simp add: skips_rule_def)
next
  case (Cons c cs)
  with assms have "m p (c # cs) = None" by (auto simp: skips_rule_def)
  with Cons assms(2) show ?thesis by simp
qed

lemma rule_line_kept:
  assumes "skips_rule m" and "2 \<le> n" and "rule_line n s"
  shows "rule_line n (replace_all m f prev s)"
proof -
  from assms(3) obtain r where r: "s = replicate n 45 @ r" "r = [] \<or> isLT (hd r)"
    by (auto simp: rule_line_def)
  from skip_hyphens[OF assms(1,2)] skip_line_end[OF assms(1) r(2)] r(1)
  show ?thesis unfolding rule_line_def by metis
qed

lemma esc_hyphens: "concat (replicate n (esc 45)) = replicate n 45"
  by (induction n) (auto simp: esc_def)

lemma rule_line_escape: "rule_line n s \<Longrightarrow> rule_line n (escape_html s)"
proof -
  assume "rule_line n s"
  then obtain r where r: "s = replicate n 45 @ r" "r = [] \<or> isLT (hd r)"
    by (auto simp: rule_line_def)
  have "concat (map esc r) = [] \<or> isLT (hd (concat (map esc r)))"
    using r(2) by (cases r) (auto simp: esc_def isLT_def)
  moreover have "escape_html s = replicate n 45 @ concat (map esc r)"
    unfolding escape_html_esc r(1) by (simp add: esc_hyphens)
  ultimately show ?thesis unfolding rule_line_def by blast
qed

lemma takeWhile_hyphens:
  "takeWhile (\<lambda>c. c = 45) (replicate n 45 @ r) = replicate n 45 @ takeWhile (\<lambda>c. c = 45) r"
  by (induction n) auto

lemma rule_line_hr:
  assumes "rule_line n s" and "3 \<le> n"
  shows "prefix (cu ''<hr class=\"nuru-divider\">'') (hr_pass s)"
proof -
  from assms(1) obtain r where r: "s = replicate n 45 @ r" "r = [] \<or> isLT (hd r)"
    by (auto simp: rule_line_def)
  from r(2) have tw: "takeWhile (\<lambda>c. c = 45) s = replicate n 45"
    unfolding r(1) by (cases r) (auto simp: isLT_def takeWhile_hyphens)
  have dr: "drop n s = r" unfolding r(1) by simp
  have m: "re_hr None s = Some (replicate n 45, [])"
    using assms(2) r(2) by (cases r) (auto simp: re_hr_def tw dr bol_def Let_def)
  from assms(2) obtain c cs where s: "s = c # cs" unfolding r(1) by (cases n) auto
  have "replicate n (45::nat) \<noteq> []" using assms(2) by auto
  with m s have "hr_pass s = cu ''<hr class=\"nuru-divider\">''
      @ replace_all re_hr (const_rep ''<hr class=\"nuru-divider\">'') (Some (last (replicate n 45))) (drop n s)"
    unfolding hr_pass_def by (simp add: const_rep_def del: cu_Cons cu_Nil)
  then show ?thesis by (metis prefixI)
qed

lemma replace_all_copy_prefix:
  "(\<And>c prev cs. c \<in> set v \<Longrightarrow> m prev (c # cs) = None) \<Longrightarrow> prefix v s \<Longrightarrow>
   prefix v (replace_all m f prev s)"
proof (induction v arbitrary: s prev)
  case Nil then show ?case by simp
next
  case (Cons x v)
  from Cons.prems(2) obtain s' where s: "s = x # s'" and p: "prefix v s'"
    by (cases s) auto
  from Cons.prems(1) have "m prev (x # s') = None" by simp
  with s have "replace_all m f prev s = x # replace_all m f (Some x) s'" by simp
  moreover have "prefix v (replace_all m f (Some x) s')"
    using Cons.IH[OF _ p] Cons.prems(1) by simp
  ultimately show ?case by simp
qed

lemma prefix_hr_kept:
  assumes "prefix (cu ''<hr class=\"nuru-divider\">'') s"
  shows "prefix (cu ''<hr class=\"nuru-divider\">'') (replace_all (re_lit (10 # ps)) f prev s)"
  using assms by (rule replace_all_copy_prefix[rotated]) (auto simp: re_lit_def)

lemma divider_first:
  assumes "3 \<le> n" and "rest = [] \<or> isLT (hd rest)"
  shows "prefix (cu ''<hr class=\"nuru-divider\">'') (render_body (replicate n 45 @ rest))"
proof -
  let ?s = "replicate n 45 @ rest"
  have n2: "2 \<le> n" using assms(1) by simp
  have "rule_line n ?s" using assms(2) by (auto simp: rule_line_def)
  then have "rule_line n (escape_html ?s)" by (rule rule_line_escape)
  then have "rule_line n (h4_pass (escape_html ?s))"
    unfolding h4_pass_def using skips_h n2 by (simp add: rule_line_kept)
  then have "rule_line n (h3_pass (h4_pass (escape_html ?s)))"
    unfolding h3_pass_def using skips_h n2 by (simp add: rule_line_kept)
  then have "rule_line n (bold_pass (h3_pass (h4_pass (escape_html ?s))))"
    unfolding bold_pass_def using skips_bold n2 by (simp add: rule_line_kept)
  then have "rule_line n (italic_pass (bold_pass (h3_pass (h4_pass (escape_html ?s)))))"
    unfolding italic_pass_def using skips_italic n2 by (simp add: rule_line_kept)
  then have "rule_line n (bullet_pass (italic_pass (bold_pass (h3_pass (h4_pass (escape_html ?s))))))"
    unfolding bullet_pass_def using skips_bullet n2 by (simp add: rule_line_kept)
  then have "rule_line n (ul_pass (bullet_pass (italic_pass (bold_pass (h3_pass (h4_pass (escape_html ?s)))))))"
    unfolding ul_pass_def using skips_ul n2 by (simp add: rule_line_kept)
  then have "rule_line n (numbered_pass (ul_pass (bullet_pass (italic_pass (bold_pass (h3_pass (h4_pass (escape_html ?s))))))))"
    unfolding numbered_pass_def using skips_numbered n2 by (simp add: rule_line_kept)
  then have "prefix (cu ''<hr class=\"nuru-divider\">'')
      (hr_pass (numbered_pass (ul_pass (bullet_pass (italic_pass (bold_pass (h3_pass (h4_pass (escape_html ?s)))))))))"
    using assms(1) by (rule rule_line_hr)
  then have "prefix (cu ''<hr class=\"nuru-divider\">'')
      (br_pass (para_pass (hr_pass (numbered_pass (ul_pass (bullet_pass (italic_pass (bold_pass (h3_pass (h4_pass (escape_html ?s)))))))))))"
    unfolding br_pass_def para_pass_def by (intro prefix_hr_kept)
  then show ?thesis by (simp add: render_body_def markup_passes_def del: cu_Cons cu_Nil)
qed

lemma tagsafe_h_prefix:
  assumes "tagsafe s" and "prefix (cu ''<h'') s"
  shows "prefix (cu ''<h4'') s \<or> prefix (cu ''<h3'') s \<or> prefix (cu ''<hr'') s"
proof -
  from assms(2) obtain r where "s = 60 # 104 # r" by (auto simp: prefix_def)
  with assms(1) show ?thesis
    by (cases r) (auto simp: after_lt_def tag_third_def)
qed

lemma tagsafe_no_ol: "tagsafe s \<Longrightarrow> \<not> prefix (cu ''<ol'') s"
  by (auto simp: prefix_def after_lt_def tag_second_def)

lemma starts_block_iff:
  "starts_block (render_body text) \<longleftrightarrow>
     prefix (cu ''<h4'') (render_body text) \<or> prefix (cu ''<h3'') (render_body text)
     \<or> prefix (cu ''<hr'') (render_body text) \<or> prefix (cu ''<ul'') (render_body text)"
proof -
  have "prefix (cu ''<h'') s" if "prefix (cu ''<h4'') s \<or> prefix (cu ''<h3'') s \<or> prefix (cu ''<hr'') s"
    for s :: jstring
    using that by (auto simp: prefix_def)
  then show ?thesis
    unfolding starts_block_def
    using tagsafe_h_prefix [OF tagsafe_render_body] tagsafe_no_ol [OF tagsafe_render_body]
    by blast
qed

text \<open>
  C2, as the code has it. For a text that is not empty, the fragment is wrapped in a
  paragraph unless it starts with a heading, with the divider or with the list wrapper:
  the code tests for \<open><h\<close>, \<open><ul\<close> and \<open><ol\<close>, a fragment starts with \<open><h\<close> exactly
  when it starts with \<open><h4\<close>, \<open><h3\<close> or \<open><hr\<close>, and none starts with \<open><ol\<close>. So
  whenever the first line of the text is three or more hyphens, the fragment starts with
  the divider and is returned without a paragraph around it.
\<close>

theorem wrap_unless_block_prefix:
  "(text \<noteq> [] \<longrightarrow>
      parseMarkdown text =
        (if prefix (cu ''<h4'') (render_body text) \<or> prefix (cu ''<h3'') (render_body text)
            \<or> prefix (cu ''<hr'') (render_body text) \<or> prefix (cu ''<ul'') (render_body text)
         then render_body text
         else cu ''<p class=\"nuru-p\">'' @ render_body text @ cu ''</p>''))
   \<and> (3 \<le> n \<and> (rest = [] \<or> isLT (hd rest)) \<longrightarrow>
        prefix (cu ''<hr class=\"nuru-divider\">'') (render_body (replicate n 45 @ rest))
        \<and> parseMarkdown (replicate n 45 @ rest) = render_body (replicate n 45 @ rest))"
proof -
  have w: "parseMarkdown t =
        (if prefix (cu ''<h4'') (render_body t) \<or> prefix (cu ''<h3'') (render_body t)
            \<or> prefix (cu ''<hr'') (render_body t) \<or> prefix (cu ''<ul'') (render_body t)
         then render_body t
         else cu ''<p class=\"nuru-p\">'' @ render_body t @ cu ''</p>'')"
    if "t \<noteq> []" for t
    using that unfolding parseMarkdown_def Let_def starts_block_iff
    by (simp del: cu_Cons cu_Nil)
  have "parseMarkdown (replicate n 45 @ rest) = render_body (replicate n 45 @ rest)"
    if d: "prefix (cu ''<hr class=\"nuru-divider\">'') (render_body (replicate n 45 @ rest))"
      and n: "3 \<le> n"
  proof -
    from d have "prefix (cu ''<hr'') (render_body (replicate n 45 @ rest))"
      by (auto simp: prefix_def)
    moreover from n have "replicate n (45::nat) @ rest \<noteq> []" by auto
    ultimately show ?thesis using w by simp
  qed
  then show ?thesis
    using divider_first [of n rest] w [of "text"] by blast
qed

text \<open>A plain word is wrapped; a divider followed by a second line is not.\<close>

theorem wrap_unless_block_prefix_witness:
  "cu ''hello'' \<noteq> []
   \<and> parseMarkdown (cu ''hello'') = cu ''<p class=\"nuru-p\">hello</p>''
   \<and> (3::nat) \<le> 3 \<and> isLT (hd (10 # cu ''x''))
   \<and> parseMarkdown (cu ''---'' @ 10 # cu ''x'') = cu ''<hr class=\"nuru-divider\"><br>x''"
proof -
  have b: "render_body (cu ''hello'') = cu ''hello''"
    by (simp add: md_eval)
  have c: "render_body (replicate 3 45 @ 10 # cu ''x'') = cu ''<hr class=\"nuru-divider\"><br>x''"
    by (simp add: md_eval numeral_3_eq_3)
  have r: "replicate 3 45 @ 10 # cu ''x'' = cu ''---'' @ 10 # cu ''x''"
    by (simp add: numeral_3_eq_3)
  have l: "isLT (hd (10 # cu ''x''))" by (simp add: isLT_def)
  from wrap_unless_block_prefix [of "cu ''hello''" 3 "10 # cu ''x''"] b c l
  show ?thesis unfolding r by simp
qed

end
